theory Spec2Isabelle
  imports Complex_Main
begin

section \<open>Data model of the EasyPay importer\<close>

text \<open>
  The development follows \<^verbatim>\<open>dist/services/EasyPayDataImporter.js\<close>.
  A client is a JSON object read through its property names. A property that is
  absent reads as \<^verbatim>\<open>undefined\<close>, here \<open>None\<close>; the values are taken to be
  strings, as the target columns are all \<^verbatim>\<open>TEXT\<close>.
\<close>

type_synonym client = "string \<Rightarrow> string option"

text \<open>
  An element of the \<^verbatim>\<open>Sheet1\<close> array is any JSON value. \<^verbatim>\<open>null\<close> has no
  properties: reading one throws a \<^verbatim>\<open>TypeError\<close>. Every other value is read
  through its properties like an object; a number, a boolean, a string or an array
  has none of the properties the importer reads.
\<close>

datatype element = JsonNull | JsonObject client

text \<open>JavaScript truthiness of such a value: absent and the empty string are falsy.\<close>

definition truthy :: "string option \<Rightarrow> bool" where
  "truthy v = (case v of None \<Rightarrow> False | Some s \<Rightarrow> s \<noteq> [])"

text \<open>
  \<^verbatim>\<open>total\<close> is assigned \<^verbatim>\<open>clients.length\<close>, which is \<^verbatim>\<open>undefined\<close>, here
  \<open>None\<close>, when \<^verbatim>\<open>clients\<close> is neither an array nor a string and has no property
  of that name.
\<close>

record ImportStats =
  total_stat :: "int option"
  imported :: int
  skipped :: int
  errors :: int
  duplicates :: int
  processingTime :: int

text \<open>Every field of \<^verbatim>\<open>ImportOptions\<close> is optional; \<open>None\<close> is an absent field.\<close>

record ImportOptions =
  batchSize :: "int option"
  skipDuplicates :: "bool option"
  updateExisting :: "bool option"
  dryRun :: "bool option"

definition flag :: "bool option \<Rightarrow> bool" where
  "flag b = (b = Some True)"

definition no_options :: ImportOptions where
  "no_options = \<lparr>batchSize = None, skipDuplicates = None, updateExisting = None, dryRun = None\<rparr>"

definition zero_stats :: ImportStats where
  "zero_stats = \<lparr>total_stat = Some 0, imported = 0, skipped = 0, errors = 0, duplicates = 0,
     processingTime = 0\<rparr>"

section \<open>createBatches\<close>

text \<open>
  \<^verbatim>\<open>Array.prototype.slice(start, end)\<close> on integer arguments: a negative index counts
  from the end of the array, and both indices are clamped to the array.
\<close>

definition slice :: "'a list \<Rightarrow> int \<Rightarrow> int \<Rightarrow> 'a list" where
  "slice xs start fin =
     (let len = int (length xs);
          k = (if start < 0 then max (len + start) 0 else min start len);
          final = (if fin < 0 then max (len + fin) 0 else min fin len)
      in take (nat (final - k)) (drop (nat k) xs))"

text \<open>
  The \<^verbatim>\<open>for (let i = 0; i < clients.length; i += batchSize)\<close> loop. Nothing in it
  bounds the number of rounds when \<open>batchSize\<close> is not positive, so the loop is a
  partial function: \<open>None\<close> is a loop that never ends.
\<close>

partial_function (option) createBatches_loop ::
  "'a list \<Rightarrow> int \<Rightarrow> int \<Rightarrow> 'a list list \<Rightarrow> 'a list list option" where
  "createBatches_loop clients bsize i batches =
     (if i < int (length clients)
      then createBatches_loop clients bsize (i + bsize)
             (batches @ [slice clients i (i + bsize)])
      else Some batches)"

definition createBatches :: "'a list \<Rightarrow> int \<Rightarrow> 'a list list option" where
  "createBatches clients bsize = createBatches_loop clients bsize 0 []"

text \<open>\<^verbatim>\<open>options.batchSize || 100\<close>: an absent or zero batch size becomes 100.\<close>

definition effective_batchSize :: "ImportOptions \<Rightarrow> int" where
  "effective_batchSize options =
     (case batchSize options of None \<Rightarrow> 100 | Some b \<Rightarrow> if b = 0 then 100 else b)"

section \<open>analyzeData\<close>

text \<open>
  The dry-run pass keeps two sets, \<^verbatim>\<open>clientIds\<close> and \<^verbatim>\<open>emails\<close>, and one
  counter. A missing \<^verbatim>\<open>Client ID\<close> is the value \<^verbatim>\<open>undefined\<close>, which a
  \<^verbatim>\<open>Set\<close> stores like any other value.
\<close>

type_synonym analysis = "string option set \<times> string option set \<times> int"

definition analyze_client :: "client \<Rightarrow> analysis \<Rightarrow> analysis" where
  "analyze_client c a =
     (case a of (clientIds, emails, dups) \<Rightarrow>
        (let (clientIds1, dups1) =
               (if c ''Client ID'' \<in> clientIds then (clientIds, dups + 1)
                else (insert (c ''Client ID'') clientIds, dups));
             (emails2, dups2) =
               (if truthy (c ''Email'') \<and> c ''Email'' \<in> emails then (emails, dups1 + 1)
                else if truthy (c ''Email'') then (insert (c ''Email'') emails, dups1)
                else (emails, dups1))
         in (clientIds1, emails2, dups2)))"

fun analyze_loop :: "client list \<Rightarrow> analysis \<Rightarrow> analysis" where
  "analyze_loop [] a = a"
| "analyze_loop (c # cs) a = analyze_loop cs (analyze_client c a)"

definition analyzeData :: "client list \<Rightarrow> ImportStats \<Rightarrow> ImportStats" where
  "analyzeData clients s =
     (case analyze_loop clients ({}, {}, 0) of (clientIds, emails, dups) \<Rightarrow>
        s\<lparr>duplicates := dups, skipped := dups\<rparr>)"

section \<open>The store behind the importer\<close>

text \<open>
  The importer reaches the table \<^verbatim>\<open>easypay_clients\<close> through three statements.
  A row is its \<^verbatim>\<open>id\<close> and its text columns, \<open>None\<close> being \<^verbatim>\<open>NULL\<close>. The
  store keeps a log of the statements it has run, and \<open>outage\<close> tells which of them
  (by position in that log) fail for a reason of the store's own, such as a lost
  connection. The two timestamp columns are left out.
\<close>

record row =
  row_id :: nat
  cols :: "string \<Rightarrow> string option"

datatype db_call = SelectCall string | InsertCall "string option" | UpdateCall "string option"

datatype db_error = StoreFailure | ConstraintViolation

record database =
  rows :: "row list"
  next_id :: nat
  calls :: "db_call list"
  outage :: "nat \<Rightarrow> bool"

text \<open>Columns paired with the client property bound to them, in the order of the SQL text.\<close>

definition update_columns :: "(string \<times> string) list" where
  "update_columns =
     [(''display_name'', ''Display Name''), (''ssn'', ''SSN''), (''is_resident'', ''Is Resident''),
      (''password'', ''Password''), (''pin'', ''Pin''), (''first_name'', ''First Name''),
      (''last_name'', ''Last Name''), (''address'', ''Address''),
      (''date_of_birth'', ''Date Of Birth''), (''is_enabled'', ''Is Enabled''),
      (''email'', ''Email''), (''phone'', ''Phone''), (''phone2'', ''Phone2''),
      (''gender'', ''Gender''), (''language'', ''Language''),
      (''phone_verified'', ''Phone Verified''), (''email_verified'', ''Email Verified''),
      (''open_date'', ''Open Date''), (''is_verified'', ''Is Varificated''),
      (''ordered_registration'', ''Ordered Registration''),
      (''verification_date'', ''VerificationDate''),
      (''registration_type'', ''Registration Type'')]"

definition insert_columns :: "(string \<times> string) list" where
  "insert_columns = (''client_id'', ''Client ID'') # update_columns"

text \<open>The columns declared \<^verbatim>\<open>NOT NULL\<close>; \<^verbatim>\<open>client_id\<close> is also \<^verbatim>\<open>UNIQUE\<close>.\<close>

definition not_null_columns :: "string list" where
  "not_null_columns =
     [''client_id'', ''display_name'', ''first_name'', ''last_name'', ''email'', ''phone'']"

definition bind_columns :: "(string \<times> string) list \<Rightarrow> client \<Rightarrow> (string \<Rightarrow> string option) \<Rightarrow>
    string \<Rightarrow> string option" where
  "bind_columns assignments c old col =
     (case map_of assignments col of Some property \<Rightarrow> c property | None \<Rightarrow> old col)"

definition violates_not_null :: "(string \<Rightarrow> string option) \<Rightarrow> bool" where
  "violates_not_null values = list_ex (\<lambda>col. values col = None) not_null_columns"

definition has_client_id :: "string option \<Rightarrow> row \<Rightarrow> bool" where
  "has_client_id k r = (k \<noteq> None \<and> cols r ''client_id'' = k)"

definition log_call :: "db_call \<Rightarrow> database \<Rightarrow> database" where
  "log_call call d = d\<lparr>calls := calls d @ [call]\<rparr>"

definition fails_now :: "database \<Rightarrow> bool" where
  "fails_now d = outage d (length (calls d))"

text \<open>\<^verbatim>\<open>SELECT id FROM easypay_clients WHERE client_id = ?\<close>, read with \<^verbatim>\<open>db.get\<close>.\<close>

definition checkExistingClient :: "string \<Rightarrow> database \<Rightarrow> (db_error + row option) \<times> database" where
  "checkExistingClient clientId d =
     (if fails_now d then (Inl StoreFailure, log_call (SelectCall clientId) d)
      else (Inr (find (has_client_id (Some clientId)) (rows d)),
            log_call (SelectCall clientId) d))"

text \<open>\<^verbatim>\<open>INSERT INTO easypay_clients (...) VALUES (...)\<close> with the 23 bound properties.\<close>

definition insertClient :: "client \<Rightarrow> database \<Rightarrow> (db_error + unit) \<times> database" where
  "insertClient c d =
     (let values = bind_columns insert_columns c (\<lambda>col. None);
          d1 = log_call (InsertCall (c ''Client ID'')) d
      in if fails_now d then (Inl StoreFailure, d1)
         else if violates_not_null values then (Inl ConstraintViolation, d1)
         else if list_ex (has_client_id (values ''client_id'')) (rows d)
           then (Inl ConstraintViolation, d1)
         else (Inr (), d1\<lparr>rows := rows d @ [\<lparr>row_id = next_id d, cols = values\<rparr>],
                           next_id := next_id d + 1\<rparr>))"

text \<open>\<^verbatim>\<open>UPDATE easypay_clients SET ... WHERE client_id = ?\<close>.\<close>

definition updateClient :: "client \<Rightarrow> database \<Rightarrow> (db_error + unit) \<times> database" where
  "updateClient c d =
     (let k = c ''Client ID'';
          d1 = log_call (UpdateCall k) d
      in if fails_now d then (Inl StoreFailure, d1)
         else if list_ex (\<lambda>r. has_client_id k r
                   \<and> violates_not_null (bind_columns update_columns c (cols r))) (rows d)
           then (Inl ConstraintViolation, d1)
         else (Inr (), d1\<lparr>rows := map (\<lambda>r. if has_client_id k r
                                 then r\<lparr>cols := bind_columns update_columns c (cols r)\<rparr>
                                 else r) (rows d)\<rparr>))"

section \<open>processClient\<close>

type_synonym run = "ImportStats \<times> database"

definition count_error :: "ImportStats \<Rightarrow> ImportStats" where
  "count_error s = s\<lparr>errors := errors s + 1\<rparr>"

definition count_skipped :: "ImportStats \<Rightarrow> ImportStats" where
  "count_skipped s = s\<lparr>skipped := skipped s + 1\<rparr>"

definition count_imported :: "ImportStats \<Rightarrow> ImportStats" where
  "count_imported s = s\<lparr>imported := imported s + 1\<rparr>"

text \<open>
  One call of \<^verbatim>\<open>processClient\<close> on a client, run from its start to its end with
  nothing else in between. Every rejected promise lands in the \<^verbatim>\<open>catch\<close>, which
  counts an error.
\<close>

definition processClient :: "client \<Rightarrow> ImportOptions \<Rightarrow> run \<Rightarrow> run" where
  "processClient c options sd =
     (case sd of (s, d) \<Rightarrow>
        (case c ''Client ID'' of
           None \<Rightarrow> (count_error s, d)
         | Some clientId \<Rightarrow>
             if clientId = [] then (count_error s, d)
             else (case checkExistingClient clientId d of
                     (Inl err, d1) \<Rightarrow> (count_error s, d1)
                   | (Inr (Some existingClient), d1) \<Rightarrow>
                       if flag (skipDuplicates options) then (count_skipped s, d1)
                       else if flag (updateExisting options) then
                         (case updateClient c d1 of
                            (Inl err, d2) \<Rightarrow> (count_error s, d2)
                          | (Inr u, d2) \<Rightarrow> (count_imported s, d2))
                       else (count_skipped s, d1)
                   | (Inr None, d1) \<Rightarrow>
                       (case insertClient c d1 of
                          (Inl err, d2) \<Rightarrow> (count_error s, d2)
                        | (Inr u, d2) \<Rightarrow> (count_imported s, d2)))))"

section \<open>processBatch\<close>

text \<open>
  \<^verbatim>\<open>processBatch\<close> starts \<^verbatim>\<open>processClient\<close> on every client of the batch and waits
  with \<^verbatim>\<open>Promise.allSettled\<close>. Each call runs up to its first \<^verbatim>\<open>await\<close> at once;
  what is left of it is a task that waits for a statement of the store. A task is
  resumed when its statement has run, and the order in which the store serves the
  waiting tasks is not fixed by the importer: it is the \<open>sched\<close> argument below, a
  list of choices among the tasks still waiting. A statement takes effect at the
  step that resumes its task, so the schedules range over every order in which the
  statements of a batch can take effect.
\<close>

datatype task = AwaitCheck string client | AwaitInsert client | AwaitUpdate client

definition processClient_start :: "client \<Rightarrow> ImportStats \<Rightarrow> task option \<times> ImportStats" where
  "processClient_start c s =
     (case c ''Client ID'' of
        None \<Rightarrow> (None, count_error s)
      | Some clientId \<Rightarrow>
          if clientId = [] then (None, count_error s)
          else (Some (AwaitCheck clientId c), s))"

fun processClient_resume :: "ImportOptions \<Rightarrow> task \<Rightarrow> run \<Rightarrow> task option \<times> run" where
  "processClient_resume options (AwaitCheck clientId c) (s, d) =
     (case checkExistingClient clientId d of
        (Inl err, d1) \<Rightarrow> (None, (count_error s, d1))
      | (Inr (Some existingClient), d1) \<Rightarrow>
          if flag (skipDuplicates options) then (None, (count_skipped s, d1))
          else if flag (updateExisting options) then (Some (AwaitUpdate c), (s, d1))
          else (None, (count_skipped s, d1))
      | (Inr None, d1) \<Rightarrow> (Some (AwaitInsert c), (s, d1)))"
| "processClient_resume options (AwaitInsert c) (s, d) =
     (case insertClient c d of
        (Inl err, d2) \<Rightarrow> (None, (count_error s, d2))
      | (Inr u, d2) \<Rightarrow> (None, (count_imported s, d2)))"
| "processClient_resume options (AwaitUpdate c) (s, d) =
     (case updateClient c d of
        (Inl err, d2) \<Rightarrow> (None, (count_error s, d2))
      | (Inr u, d2) \<Rightarrow> (None, (count_imported s, d2)))"

text \<open>
  \<^verbatim>\<open>batch.map(client => this.processClient(client, options))\<close>. On \<^verbatim>\<open>null\<close> the
  first statement of the \<^verbatim>\<open>try\<close> block, \<^verbatim>\<open>client["Client ID"]\<close>, throws, and so
  does the \<^verbatim>\<open>console.error\<close> line of the \<^verbatim>\<open>catch\<close> block, which reads the same
  property before \<^verbatim>\<open>this.stats.errors++\<close> is reached: the promise of that call is
  rejected with no counter changed and no statement sent to the store, and
  \<^verbatim>\<open>Promise.allSettled\<close> takes the rejection without throwing.
\<close>

fun start_all :: "element list \<Rightarrow> ImportStats \<Rightarrow> task list \<times> ImportStats" where
  "start_all [] s = ([], s)"
| "start_all (JsonNull # es) s = start_all es s"
| "start_all (JsonObject c # es) s =
     (case processClient_start c s of
        (None, s1) \<Rightarrow> start_all es s1
      | (Some t, s1) \<Rightarrow> (case start_all es s1 of (ts, s2) \<Rightarrow> (t # ts, s2)))"

definition pick :: "nat list \<Rightarrow> nat \<Rightarrow> nat" where
  "pick sched n = (case sched of [] \<Rightarrow> 0 | k # ks \<Rightarrow> k mod n)"

definition advance :: "ImportOptions \<Rightarrow> nat \<Rightarrow> task list \<Rightarrow> run \<Rightarrow> task list \<times> run" where
  "advance options i pending sd =
     (case processClient_resume options (pending ! i) sd of
        (None, sd1) \<Rightarrow> (take i pending @ drop (Suc i) pending, sd1)
      | (Some t, sd1) \<Rightarrow> (pending[i := t], sd1))"

fun steps_left :: "task \<Rightarrow> nat" where
  "steps_left (AwaitCheck clientId c) = 2"
| "steps_left (AwaitInsert c) = 1"
| "steps_left (AwaitUpdate c) = 1"

lemma resume_steps_left:
  "processClient_resume options t sd = (Some t', sd') \<Longrightarrow> steps_left t' < steps_left t"
  by (cases t; cases sd)
     (auto split: prod.splits sum.splits option.splits if_splits)

lemma sum_list_update_less:
  fixes f :: "'a \<Rightarrow> nat"
  assumes "i < length xs" "f y < f (xs ! i)"
  shows "sum_list (map f (xs[i := y])) < sum_list (map f xs)"
  using assms
proof (induction xs arbitrary: i)
  case Nil
  then show ?case by simp
next
  case (Cons x xs)
  then show ?case by (cases i) auto
qed

lemma sum_list_remove_less:
  fixes f :: "'a \<Rightarrow> nat"
  assumes "i < length xs" "0 < f (xs ! i)"
  shows "sum_list (map f (take i xs @ drop (Suc i) xs)) < sum_list (map f xs)"
  using assms
proof (induction xs arbitrary: i)
  case Nil
  then show ?case by simp
next
  case (Cons x xs)
  then show ?case by (cases i) auto
qed

lemma steps_left_pos: "0 < steps_left t"
  by (cases t) auto

lemma pick_less: "pending \<noteq> [] \<Longrightarrow> pick sched (length pending) < length pending"
  by (auto simp: pick_def split: list.splits)

lemma advance_decreases:
  assumes "i < length pending" "advance options i pending sd = (pending', sd')"
  shows "sum_list (map steps_left pending') < sum_list (map steps_left pending)"
proof (cases "fst (processClient_resume options (pending ! i) sd)")
  case None
  then have "pending' = take i pending @ drop (Suc i) pending"
    using assms(2) by (auto simp: advance_def split: prod.splits)
  then show ?thesis
    using sum_list_remove_less [OF assms(1), of steps_left] steps_left_pos by simp
next
  case (Some t)
  then have p: "pending' = pending[i := t]"
    using assms(2) by (auto simp: advance_def split: prod.splits)
  from Some have "steps_left t < steps_left (pending ! i)"
    using resume_steps_left [of options "pending ! i" sd t]
    by (cases "processClient_resume options (pending ! i) sd") auto
  then show ?thesis
    using sum_list_update_less [OF assms(1), of steps_left t] p by simp
qed

text \<open>The wait of \<^verbatim>\<open>Promise.allSettled\<close>: tasks are resumed until none is left.\<close>

function settle :: "ImportOptions \<Rightarrow> nat list \<Rightarrow> task list \<Rightarrow> run \<Rightarrow> run \<times> nat list" where
  "settle options sched pending sd =
     (if pending = [] then (sd, sched)
      else (case advance options (pick sched (length pending)) pending sd of
              (pending', sd') \<Rightarrow> settle options (tl sched) pending' sd'))"
  by pat_completeness auto
termination
proof (relation "measure (\<lambda>(options, sched, pending, sd). sum_list (map steps_left pending))")
  show "wf (measure (\<lambda>(options, sched, pending, sd). sum_list (map steps_left pending)))"
    by simp
next
  fix options :: ImportOptions and sched :: "nat list" and pending :: "task list"
    and sd :: run and pending' sd'
  assume nonempty: "pending \<noteq> []"
    and split: "(pending', sd') = advance options (pick sched (length pending)) pending sd"
  from split have "advance options (pick sched (length pending)) pending sd = (pending', sd')"
    by simp
  then have "sum_list (map steps_left pending') < sum_list (map steps_left pending)"
    using advance_decreases pick_less [OF nonempty] by blast
  then show "((options, tl sched, pending', sd'), options, sched, pending, sd)
      \<in> measure (\<lambda>(options, sched, pending, sd). sum_list (map steps_left pending))"
    by simp
qed

definition processBatch :: "ImportOptions \<Rightarrow> nat list \<Rightarrow> element list \<Rightarrow> run \<Rightarrow> run \<times> nat list" where
  "processBatch options sched batch sd =
     (case sd of (s, d) \<Rightarrow>
        (case start_all batch s of (tasks, s1) \<Rightarrow> settle options sched tasks (s1, d)))"

text \<open>The loop of \<^verbatim>\<open>importAll\<close> over the batches, one batch after the other.\<close>

fun process_batches ::
  "ImportOptions \<Rightarrow> nat list \<Rightarrow> element list list \<Rightarrow> run \<Rightarrow> run \<times> nat list" where
  "process_batches options sched [] sd = (sd, sched)"
| "process_batches options sched (batch # batches) sd =
     (case processBatch options sched batch sd of
        (sd1, sched1) \<Rightarrow> process_batches options sched1 batches sd1)"

section \<open>The importer object and importAll\<close>

text \<open>
  The file named by \<^verbatim>\<open>jsonPath\<close> is missing, or does not read or parse, or parses
  to a JSON value \<^verbatim>\<open>jsonData\<close>. Of that value \<^verbatim>\<open>importAll\<close> reads one property,
  \<^verbatim>\<open>Sheet1\<close>. Reading it throws when the value is \<^verbatim>\<open>null\<close>; otherwise the
  property is
  \<^item> \<open>Absent\<close>: the value is an object without it, or a number, boolean, string or
    array;
  \<^item> \<open>Falsy\<close>: \<^verbatim>\<open>null\<close>, \<^verbatim>\<open>false\<close>, \<^verbatim>\<open>0\<close> or the empty string;
  \<^item> \<open>Array\<close>: an array, with its elements;
  \<^item> \<open>Text\<close>: a string, with its characters (each a single UTF-16 unit, so that
    \<^verbatim>\<open>length\<close> and iteration count the same);
  \<^item> \<open>Opaque\<close>: \<^verbatim>\<open>true\<close>, a non-zero number, or an object that is not an array:
    truthy, not iterable and without \<^verbatim>\<open>slice\<close>. Its argument is what
    \<^verbatim>\<open>.length\<close> reads on it: \<open>None\<close> for \<^verbatim>\<open>undefined\<close> (a boolean, a number,
    an object with no property of that name), \<open>Some n\<close> for an object whose
    \<^verbatim>\<open>length\<close> property is the integer \<open>n\<close>. An object whose \<^verbatim>\<open>length\<close>
    property is not an integer is left out.
\<close>

datatype sheet1 = Absent | Falsy | Array "element list" | Text string | Opaque "int option"

datatype jsonData = NullData | Data sheet1

datatype source_file = Malformed | Parsed jsonData

datatype error = FileNotFound string | ParseError | TypeError

text \<open>\<^verbatim>\<open>const clients = jsonData.Sheet1 || []\<close>, and \<^verbatim>\<open>clients.length\<close>.\<close>

datatype clients = Elements "element list" | Characters string | NotIterable "int option"

fun or_empty :: "sheet1 \<Rightarrow> clients" where
  "or_empty Absent = Elements []"
| "or_empty Falsy = Elements []"
| "or_empty (Array es) = Elements es"
| "or_empty (Text t) = (if t = [] then Elements [] else Characters t)"
| "or_empty (Opaque l) = NotIterable l"

fun clients_length :: "clients \<Rightarrow> int option" where
  "clients_length (Elements es) = Some (int (length es))"
| "clients_length (Characters t) = Some (int (length t))"
| "clients_length (NotIterable l) = l"

text \<open>
  The call \<^verbatim>\<open>this.analyzeData(clients)\<close>. Its loop reads two properties of every
  element and assigns to \<^verbatim>\<open>this.stats\<close> only after the loop, and it has no
  \<^verbatim>\<open>try\<close>: a \<^verbatim>\<open>null\<close> element makes it throw with the stats untouched, and so
  does a value that cannot be iterated. Over elements that all have properties it
  is the loop of \<open>analyzeData\<close> above. The characters of a string are elements
  without the two properties.
\<close>

fun objects :: "element list \<Rightarrow> client list option" where
  "objects [] = Some []"
| "objects (JsonNull # es) = None"
| "objects (JsonObject c # es) = map_option ((#) c) (objects es)"

definition analyzeData_of :: "clients \<Rightarrow> ImportStats \<Rightarrow> error + ImportStats" where
  "analyzeData_of cl s =
     (case cl of
        Elements es \<Rightarrow>
          (case objects es of None \<Rightarrow> Inl TypeError | Some cs \<Rightarrow> Inr (analyzeData cs s))
      | Characters t \<Rightarrow> Inr (analyzeData (map (\<lambda>ch property. None) t) s)
      | NotIterable l \<Rightarrow> Inl TypeError)"

text \<open>
  \<^verbatim>\<open>createBatches\<close> and the loop over the batches. On a string the slices are
  strings, and \<^verbatim>\<open>batch.map\<close> in \<^verbatim>\<open>processBatch\<close> throws for the first of them. A
  value without a length gives no batch at all, \<^verbatim>\<open>0 < undefined\<close> being false,
  and so does an object whose length is not positive; on an object whose length is
  positive the first \<^verbatim>\<open>clients.slice\<close> throws, an object having no such method.
\<close>

definition run_batches ::
  "ImportOptions \<Rightarrow> nat list \<Rightarrow> clients \<Rightarrow> run \<Rightarrow> (error + run) option" where
  "run_batches options sched cl sd =
     (case cl of
        Elements es \<Rightarrow>
          (case createBatches es (effective_batchSize options) of
             None \<Rightarrow> None
           | Some batches \<Rightarrow> Some (Inr (fst (process_batches options sched batches sd))))
      | Characters t \<Rightarrow>
          (case createBatches t (effective_batchSize options) of
             None \<Rightarrow> None
           | Some [] \<Rightarrow> Some (Inr sd)
           | Some (batch # batches) \<Rightarrow> Some (Inl TypeError))
      | NotIterable l \<Rightarrow>
          (case l of
             None \<Rightarrow> Some (Inr sd)
           | Some n \<Rightarrow> if 0 < n then Some (Inl TypeError) else Some (Inr sd)))"

text \<open>
  \<^verbatim>\<open>this.stats\<close> is a reference to an object, and \<^verbatim>\<open>importAll\<close> returns that
  reference. Stats objects therefore live in a heap, and an importer holds an
  address. Inside one call every access goes through \<^verbatim>\<open>this.stats\<close>, which the
  call never reassigns, so the functions above work on the value stored there.
\<close>

type_synonym addr = nat

record EasyPayDataImporter =
  jsonPath :: string
  stats :: addr

record world =
  files :: "string \<Rightarrow> source_file option"
  store :: database
  heap :: "addr \<Rightarrow> ImportStats"
  next_addr :: addr

definition new_object :: "ImportStats \<Rightarrow> world \<Rightarrow> addr \<times> world" where
  "new_object v w = (next_addr w, w\<lparr>heap := (heap w)(next_addr w := v), next_addr := next_addr w + 1\<rparr>)"

definition default_jsonPath :: string where
  "default_jsonPath = ''../../../data/easypayClients.json''"

definition constructor :: "string option \<Rightarrow> world \<Rightarrow> EasyPayDataImporter \<times> world" where
  "constructor path w =
     (case new_object zero_stats w of
        (a, w1) \<Rightarrow>
          (\<lparr>jsonPath = (case path of None \<Rightarrow> default_jsonPath
                         | Some p \<Rightarrow> if p = [] then default_jsonPath else p),
            stats = a\<rparr>, w1))"

definition set_stats :: "EasyPayDataImporter \<Rightarrow> ImportStats \<Rightarrow> world \<Rightarrow> world" where
  "set_stats this v w = w\<lparr>heap := (heap w)(stats this := v)\<rparr>"

text \<open>
  \<open>startTime\<close> and \<open>endTime\<close> are the two readings of \<^verbatim>\<open>Date.now()\<close>. The result
  is \<open>None\<close> when the call never returns, \<open>Inl\<close> when it throws, and otherwise the
  reference it returns. The \<^verbatim>\<open>catch\<close> of \<^verbatim>\<open>importAll\<close> throws again whatever it
  caught, and \<^verbatim>\<open>total\<close> is assigned before anything after the loading can throw.
\<close>

definition importAll ::
  "EasyPayDataImporter \<Rightarrow> ImportOptions \<Rightarrow> int \<Rightarrow> int \<Rightarrow> nat list \<Rightarrow> world \<Rightarrow>
     ((error + addr) \<times> world) option" where
  "importAll this options startTime endTime sched w =
     (case files w (jsonPath this) of
        None \<Rightarrow> Some (Inl (FileNotFound (jsonPath this)), w)
      | Some Malformed \<Rightarrow> Some (Inl ParseError, w)
      | Some (Parsed NullData) \<Rightarrow> Some (Inl TypeError, w)
      | Some (Parsed (Data sheet)) \<Rightarrow>
          (let cl = or_empty sheet;
               s0 = (heap w (stats this))\<lparr>total_stat := clients_length cl\<rparr>;
               w0 = set_stats this s0 w
           in if flag (dryRun options)
              then (case analyzeData_of cl s0 of
                      Inl e \<Rightarrow> Some (Inl e, w0)
                    | Inr s1 \<Rightarrow> Some (Inr (stats this), set_stats this s1 w0))
              else (case run_batches options sched cl (s0, store w) of
                      None \<Rightarrow> None
                    | Some (Inl e) \<Rightarrow> Some (Inl e, w0)
                    | Some (Inr (s1, d1)) \<Rightarrow>
                        Some (Inr (stats this),
                              set_stats this (s1\<lparr>processingTime := endTime - startTime\<rparr>)
                                (w0\<lparr>store := d1\<rparr>)))))"

text \<open>\<^verbatim>\<open>getStats\<close> returns \<^verbatim>\<open>{ ...this.stats }\<close>, a new object with the same fields.\<close>

definition getStats :: "EasyPayDataImporter \<Rightarrow> world \<Rightarrow> addr \<times> world" where
  "getStats this w = new_object (heap w (stats this)) w"

text \<open>\<^verbatim>\<open>resetStats\<close> points \<^verbatim>\<open>this.stats\<close> at a new object of zeros.\<close>

definition resetStats :: "EasyPayDataImporter \<Rightarrow> world \<Rightarrow> EasyPayDataImporter \<times> world" where
  "resetStats this w = (case new_object zero_stats w of (a, w1) \<Rightarrow> (this\<lparr>stats := a\<rparr>, w1))"

section \<open>Auxiliary notions and test data\<close>

text \<open>A client given by its properties, as the JSON text lists them.\<close>

definition object :: "(string \<times> string) list \<Rightarrow> client" where
  "object properties = map_of properties"

text \<open>The three records of the dry-run example of the specification.\<close>

definition example_clients :: "client list" where
  "example_clients =
     [object [(''Client ID'', ''A''), (''Email'', ''x@y.com'')],
      object [(''Client ID'', ''A''), (''Email'', ''z@y.com'')],
      object [(''Client ID'', ''B''), (''Email'', ''x@y.com'')]]"

definition empty_database :: database where
  "empty_database = \<lparr>rows = [], next_id = 1, calls = [], outage = (\<lambda>n. False)\<rparr>"

text \<open>A world whose only file is the default source file, parsing to the given value.\<close>

definition world_with :: "jsonData \<Rightarrow> world" where
  "world_with content =
     \<lparr>files = (\<lambda>path. if path = default_jsonPath then Some (Parsed content) else None),
      store = empty_database, heap = (\<lambda>a. zero_stats), next_addr = 0\<rparr>"

definition example_world :: "client list \<Rightarrow> world" where
  "example_world cs = world_with (Data (Array (map JsonObject cs)))"

text \<open>A store holding one record with key \<open>K\<close>, and an input record with the same key.\<close>

definition stored_client :: client where
  "stored_client = object [(''Client ID'', ''K''), (''Display Name'', ''Old Name''),
     (''First Name'', ''Old''), (''Last Name'', ''Name''), (''Email'', ''old@y.com''),
     (''Phone'', ''111'')]"

definition incoming_client :: client where
  "incoming_client = object [(''Client ID'', ''K''), (''Display Name'', ''New Name''),
     (''First Name'', ''New''), (''Last Name'', ''Name''), (''Email'', ''new@y.com''),
     (''Phone'', ''222'')]"

text \<open>An input record with key \<open>K\<close> that lacks the columns declared \<^verbatim>\<open>NOT NULL\<close>.\<close>

definition keyed_client :: client where
  "keyed_client = object [(''Client ID'', ''K'')]"

definition database_with_K :: database where
  "database_with_K =
     \<lparr>rows = [\<lparr>row_id = 1, cols = bind_columns insert_columns stored_client (\<lambda>col. None)\<rparr>],
      next_id = 2, calls = [], outage = (\<lambda>n. False)\<rparr>"

definition update_and_skip :: ImportOptions where
  "update_and_skip = no_options\<lparr>skipDuplicates := Some True, updateExisting := Some True\<rparr>"

definition update_only :: ImportOptions where
  "update_only = no_options\<lparr>updateExisting := Some True\<rparr>"

text \<open>The records accounted for so far, and the existence checks run so far.\<close>

definition accounted :: "ImportStats \<Rightarrow> int" where
  "accounted s = imported s + skipped s + errors s"

fun is_select :: "db_call \<Rightarrow> bool" where
  "is_select (SelectCall k) = True"
| "is_select (InsertCall k) = False"
| "is_select (UpdateCall k) = False"

definition selects :: "database \<Rightarrow> nat" where
  "selects d = length (filter is_select (calls d))"

fun awaits_check :: "task \<Rightarrow> nat" where
  "awaits_check (AwaitCheck k c) = 1"
| "awaits_check (AwaitInsert c) = 0"
| "awaits_check (AwaitUpdate c) = 0"

definition has_key :: "client \<Rightarrow> bool" where
  "has_key c = truthy (c ''Client ID'')"

text \<open>The elements that are not \<^verbatim>\<open>null\<close>, and those of them that have a key.\<close>

fun is_object :: "element \<Rightarrow> bool" where
  "is_object JsonNull = False"
| "is_object (JsonObject c) = True"

fun keyed :: "element \<Rightarrow> bool" where
  "keyed JsonNull = False"
| "keyed (JsonObject c) = has_key c"



text \<open>A write to the object behind a reference that a caller holds.\<close>

definition assign :: "addr \<Rightarrow> ImportStats \<Rightarrow> world \<Rightarrow> world" where
  "assign a v w = w\<lparr>heap := (heap w)(a := v)\<rparr>"

text \<open>
  An importer just constructed over a dataset of one record without a key, and the
  worlds after a first and a second \<open>importAll\<close> on it.
\<close>

definition keyless_client :: client where
  "keyless_client = object [(''Email'', ''x@y.com'')]"

definition importer_0 :: EasyPayDataImporter where
  "importer_0 = \<lparr>jsonPath = default_jsonPath, stats = 0\<rparr>"

definition world_0 :: world where
  "world_0 = (example_world [keyless_client])\<lparr>next_addr := 1\<rparr>"

definition world_1 :: world where
  "world_1 = set_stats importer_0
     \<lparr>total_stat = Some 1, imported = 0, skipped = 0, errors = 1, duplicates = 0,
      processingTime = 5\<rparr>
     world_0"

definition world_2 :: world where
  "world_2 = set_stats importer_0
     \<lparr>total_stat = Some 1, imported = 0, skipped = 0, errors = 2, duplicates = 0,
      processingTime = 5\<rparr>
     world_1"

text \<open>
  Worlds in which an importer has just been constructed (its stats object is at
  address 0) over source files of other shapes: a dataset of one \<^verbatim>\<open>null\<close>, a
  dataset of a \<^verbatim>\<open>null\<close> and a record that has a key, a file whose content is
  \<^verbatim>\<open>null\<close>, a file whose \<^verbatim>\<open>Sheet1\<close> is the string \<^verbatim>\<open>"abc"\<close>, and an
  object without \<^verbatim>\<open>Sheet1\<close>.
\<close>

definition constructed :: "jsonData \<Rightarrow> world" where
  "constructed content = (world_with content)\<lparr>next_addr := 1\<rparr>"

definition null_element_world :: world where
  "null_element_world = constructed (Data (Array [JsonNull]))"

definition null_and_record_world :: world where
  "null_and_record_world = constructed (Data (Array [JsonNull, JsonObject incoming_client]))"

definition null_file_world :: world where
  "null_file_world = constructed NullData"

definition text_world :: world where
  "text_world = constructed (Data (Text ''abc''))"

definition world_without_Sheet1 :: world where
  "world_without_Sheet1 = constructed (Data Absent)"

text \<open>The world after \<open>importAll\<close> over the \<^verbatim>\<open>null\<close> and the record with a key.\<close>

definition null_and_record_result :: world where
  "null_and_record_result = set_stats importer_0
     \<lparr>total_stat = Some 2, imported = 1, skipped = 0, errors = 0, duplicates = 0,
      processingTime = 5\<rparr>
     (null_and_record_world
        \<lparr>store := \<lparr>rows = [\<lparr>row_id = 1,
                              cols = bind_columns insert_columns incoming_client (\<lambda>col. None)\<rparr>],
                    next_id = 2, calls = [SelectCall ''K'', InsertCall (Some ''K'')],
                    outage = (\<lambda>n. False)\<rparr>\<rparr>)"

definition dry_run_only :: ImportOptions where
  "dry_run_only = no_options\<lparr>dryRun := Some True\<rparr>"

section \<open>Properties of createBatches\<close>

lemma slice_inside:
  assumes "0 \<le> i" "i < int (length xs)" "0 < b"
  shows "slice xs i (i + b) = take (nat b) (drop (nat i) xs)"
proof -
  have "take (nat (min (i + b) (int (length xs)) - i)) (drop (nat i) xs)
      = take (nat b) (drop (nat i) xs)"
  proof (cases "i + b \<le> int (length xs)")
    case True
    then show ?thesis by (simp add: min_def)
  next
    case False
    then have "length (drop (nat i) xs) \<le> nat (int (length xs) - i)"
      and "length (drop (nat i) xs) \<le> nat b"
      using assms by auto
    then show ?thesis using False by (simp add: min_def)
  qed
  then show ?thesis
    using assms by (simp add: slice_def Let_def min_def)
qed

lemma ceil_div_step:
  assumes "0 < b" "0 < n"
  shows "- ((- max 0 (n - b)) div b) + 1 = - ((- n) div (b::int))"
proof (cases "b \<le> n")
  case True
  have "(b - n) div b = (- n) div b + 1"
    using div_add_self2 [of b "- n"] assms by simp
  then show ?thesis using True by (simp add: max_def)
next
  case False
  have "(- n) div b = - 1"
    using int_div_pos_eq [of "- n" b "- 1" "b - n"] assms False by simp
  then show ?thesis using False by simp
qed

text \<open>
  With a positive batch size the loop started at any index \<open>i \<ge> 0\<close> ends, and what
  it appends to \<open>acc\<close> cuts the rest of the list into pieces of \<open>b\<close> elements.
\<close>

lemma createBatches_loop_positive:
  assumes b: "0 < b"
  shows "0 \<le> i \<Longrightarrow>
    \<exists>bs. createBatches_loop cs b i acc = Some (acc @ bs)
       \<and> concat bs = drop (nat i) cs
       \<and> int (length bs) = - ((- max 0 (int (length cs) - i)) div b)
       \<and> (\<forall>k. Suc k < length bs \<longrightarrow> length (bs ! k) = nat b)"
proof (induction "nat (int (length cs) - i)" arbitrary: i acc rule: less_induct)
  case less
  show ?case
  proof (cases "i < int (length cs)")
    case False
    then have "createBatches_loop cs b i acc = Some (acc @ [])"
      by (subst createBatches_loop.simps) simp
    moreover have "concat [] = drop (nat i) cs" using False by simp
    moreover have "int (length ([]::'a list list)) = - ((- max 0 (int (length cs) - i)) div b)"
      using False by simp
    ultimately show ?thesis by (metis list.size(3) not_less_zero)
  next
    case True
    let ?s = "take (nat b) (drop (nat i) cs)"
    have step: "createBatches_loop cs b i acc = createBatches_loop cs b (i + b) (acc @ [?s])"
      using True less.prems b by (subst createBatches_loop.simps) (simp add: slice_inside)
    have "nat (int (length cs) - (i + b)) < nat (int (length cs) - i)"
      using True b by simp
    moreover have "0 \<le> i + b" using less.prems b by simp
    ultimately obtain bs where
      r: "createBatches_loop cs b (i + b) (acc @ [?s]) = Some ((acc @ [?s]) @ bs)"
      and c: "concat bs = drop (nat (i + b)) cs"
      and l: "int (length bs) = - ((- max 0 (int (length cs) - (i + b))) div b)"
      and f: "\<forall>k. Suc k < length bs \<longrightarrow> length (bs ! k) = nat b"
      using less.hyps [of "i + b" "acc @ [?s]"] by blast
    have 1: "createBatches_loop cs b i acc = Some (acc @ (?s # bs))"
      using step r by simp
    have "nat (i + b) = nat b + nat i" using less.prems b by simp
    then have 2: "concat (?s # bs) = drop (nat i) cs"
      using c by (simp add: drop_drop [symmetric] del: drop_drop)
    have 3: "int (length (?s # bs)) = - ((- max 0 (int (length cs) - i)) div b)"
      using l ceil_div_step [of b "int (length cs) - i"] True b
      by (simp add: algebra_simps max_def)
    have 4: "\<forall>k. Suc k < length (?s # bs) \<longrightarrow> length ((?s # bs) ! k) = nat b"
    proof (intro allI impI)
      fix k
      assume k: "Suc k < length (?s # bs)"
      show "length ((?s # bs) ! k) = nat b"
      proof (cases k)
        case 0
        with k have "bs \<noteq> []" by auto
        then have "i + b < int (length cs)"
          using l b by (cases "i + b < int (length cs)") (auto simp: max_def)
        then have "nat b \<le> length cs - nat i" using less.prems b by linarith
        then show ?thesis using 0 by (simp add: min_def)
      next
        case (Suc j)
        then show ?thesis using k f by simp
      qed
    qed
    from 1 2 3 4 show ?thesis by blast
  qed
qed

lemma createBatches_positive:
  assumes "0 < b"
  shows "\<exists>bs. createBatches cs b = Some bs \<and> concat bs = cs"
  using createBatches_loop_positive [OF assms, of 0 cs "[]"]
  by (auto simp: createBatches_def)

text \<open>With a batch size that is not positive the loop over a non-empty rest never ends.\<close>

lemma createBatches_loop_diverges:
  assumes "b \<le> 0" "i < int (length cs)"
  shows "createBatches_loop cs b i acc = None"
proof -
  have "\<not> (b \<le> 0 \<and> i < int (length cs))" if "createBatches_loop cs b i acc = Some y" for y
  proof (rule createBatches_loop.raw_induct
      [where P = "\<lambda>cs b i acc y. \<not> (b \<le> 0 \<and> i < int (length cs))", OF _ that])
    fix loop :: "'a list \<Rightarrow> int \<Rightarrow> int \<Rightarrow> 'a list list \<Rightarrow> 'a list list option"
      and clients bsize j batches r
    assume hyp: "\<And>clients bsize j batches r. loop clients bsize j batches = Some r \<Longrightarrow>
        \<not> (bsize \<le> 0 \<and> j < int (length clients))"
      and body: "(if j < int (length clients)
         then loop clients bsize (j + bsize) (batches @ [slice clients j (j + bsize)])
         else Some batches) = Some r"
    show "\<not> (bsize \<le> 0 \<and> j < int (length clients))"
    proof
      assume a: "bsize \<le> 0 \<and> j < int (length clients)"
      then have "loop clients bsize (j + bsize) (batches @ [slice clients j (j + bsize)]) = Some r"
        using body by simp
      from hyp [OF this] a show False by simp
    qed
  qed
  then show ?thesis using assms by (cases "createBatches_loop cs b i acc") auto
qed

text \<open>
  C8. For every list of \<open>N\<close> records and every integer batch size \<open>B \<ge> 1\<close>,
  \<open>createBatches\<close> returns, and returns exactly \<open>\<lceil>N / B\<rceil>\<close> batches; every batch but
  the last has exactly \<open>B\<close> records, and the batches concatenated in order are the
  list it was given.
\<close>

theorem createBatches_coverage:
  assumes "1 \<le> b"
  shows "\<exists>bs. createBatches cs b = Some bs
     \<and> int (length bs) = \<lceil>real (length cs) / real_of_int b\<rceil>
     \<and> (\<forall>k. Suc k < length bs \<longrightarrow> length (bs ! k) = nat b)
     \<and> concat bs = cs"
proof -
  from assms have "0 < b" by simp
  from createBatches_loop_positive [OF this, of 0 cs "[]"]
  obtain bs where "createBatches_loop cs b 0 [] = Some bs" "concat bs = cs"
    "int (length bs) = - ((- int (length cs)) div b)"
    "\<forall>k. Suc k < length bs \<longrightarrow> length (bs ! k) = nat b"
    by auto
  moreover have "\<lceil>real (length cs) / real_of_int b\<rceil> = - ((- int (length cs)) div b)"
    using ceiling_divide_eq_div [of "int (length cs)" b] by simp
  ultimately show ?thesis by (simp add: createBatches_def)
qed

theorem createBatches_coverage_witness:
  "1 \<le> (2::int) \<and> (\<exists>bs. createBatches [1::nat, 2, 3] 2 = Some bs
     \<and> int (length bs) = \<lceil>real (length [1::nat, 2, 3]) / real_of_int 2\<rceil>
     \<and> (\<forall>k. Suc k < length bs \<longrightarrow> length (bs ! k) = nat 2)
     \<and> concat bs = [1, 2, 3])"
  using createBatches_coverage [of 2 "[1::nat, 2, 3]"] by simp

text \<open>
  C3. The batch size that reaches \<open>createBatches\<close> is \<^verbatim>\<open>options.batchSize || 100\<close>,
  which replaces an absent or zero value only. With \<^verbatim>\<open>{batchSize: -1}\<close> the batch
  size passed on is \<open>-1\<close>; on a list of one record the loop of \<open>createBatches\<close> never
  ends, and so \<open>importAll\<close> on a dataset of one record never returns.
\<close>

theorem negative_batchSize_never_returns:
  "effective_batchSize (no_options\<lparr>batchSize := Some (- 1)\<rparr>) = - 1
   \<and> createBatches [JsonObject keyless_client]
        (effective_batchSize (no_options\<lparr>batchSize := Some (- 1)\<rparr>)) = None
   \<and> files world_0 (jsonPath importer_0)
       = Some (Parsed (Data (Array [JsonObject keyless_client])))
   \<and> importAll importer_0 (no_options\<lparr>batchSize := Some (- 1)\<rparr>) 0 5 [] world_0 = None"
  by (simp add: effective_batchSize_def no_options_def createBatches_def
      createBatches_loop_diverges importAll_def run_batches_def flag_def world_0_def
      importer_0_def example_world_def world_with_def)

section \<open>Properties of the dry run\<close>

lemma analyze_loop_append:
  "analyze_loop (cs @ [c]) a = analyze_client c (analyze_loop cs a)"
  by (induction cs arbitrary: a) simp_all

text \<open>After the pass over \<open>cs\<close> the two sets hold every key and every truthy email of \<open>cs\<close>.\<close>

lemma analyze_loop_sets:
  "analyze_loop cs (ids, ems, d) = (ids', ems', d') \<Longrightarrow>
     ids' = ids \<union> set (map (\<lambda>x. x ''Client ID'') cs)
   \<and> ems' = ems \<union> {e \<in> set (map (\<lambda>x. x ''Email'') cs). truthy e}"
proof (induction cs arbitrary: ids ems d)
  case Nil
  then show ?case by simp
next
  case (Cons c cs)
  obtain ids1 ems1 d1 where a: "analyze_client c (ids, ems, d) = (ids1, ems1, d1)"
    by (cases "analyze_client c (ids, ems, d)") auto
  then have "ids1 = insert (c ''Client ID'') ids"
    and "ems1 = (if truthy (c ''Email'') then insert (c ''Email'') ems else ems)"
    by (auto simp: analyze_client_def Let_def split: if_splits)
  moreover from Cons.prems a have "analyze_loop cs (ids1, ems1, d1) = (ids', ems', d')"
    by simp
  ultimately show ?case using Cons.IH [of ids1 ems1 d1] by auto
qed

lemma analyzeData_snoc:
  "duplicates (analyzeData (cs @ [c]) s) =
     duplicates (analyzeData cs s)
     + (if c ''Client ID'' \<in> set (map (\<lambda>x. x ''Client ID'') cs) then 1 else 0)
     + (if truthy (c ''Email'') \<and> c ''Email'' \<in> set (map (\<lambda>x. x ''Email'') cs) then 1 else 0)"
proof -
  obtain ids ems d where a: "analyze_loop cs ({}, {}, 0) = (ids, ems, d)"
    by (cases "analyze_loop cs ({}, {}, 0)") auto
  from analyze_loop_sets [OF a]
  have "ids = set (map (\<lambda>x. x ''Client ID'') cs)"
    and "ems = {e \<in> set (map (\<lambda>x. x ''Email'') cs). truthy e}" by auto
  then show ?thesis
    using a by (auto simp: analyzeData_def analyze_loop_append analyze_client_def Let_def)
qed

lemma analyzeData_fields:
  "imported (analyzeData cs s) = imported s"
  "errors (analyzeData cs s) = errors s"
  "total_stat (analyzeData cs s) = total_stat s"
  "processingTime (analyzeData cs s) = processingTime s"
  "skipped (analyzeData cs s) = duplicates (analyzeData cs s)"
  by (simp_all add: analyzeData_def split: prod.splits)

lemma constructor_fresh:
  assumes "constructor path w0 = (this, w)"
  shows "heap w (stats this) = zero_stats" "store w = store w0" "files w = files w0"
    "stats this = next_addr w0" "next_addr w = next_addr w0 + 1"
  using assms by (auto simp: constructor_def new_object_def)

lemma constructor_example:
  "constructor None (world_with content) = (importer_0, constructed content)"
  by (simp add: constructor_def new_object_def world_with_def constructed_def importer_0_def
      fun_eq_iff)

lemma objects_all: "objects (map JsonObject cs) = Some cs"
  by (induction cs) simp_all

lemma objects_null: "JsonNull \<in> set es \<Longrightarrow> objects es = None"
proof (induction es)
  case Nil
  then show ?case by simp
next
  case (Cons e es)
  then show ?case by (cases e) auto
qed

text \<open>
  C7. In the dry-run analysis a record is checked against the keys of the records
  before it and, independently, against their non-empty emails: it adds 1 to
  \<open>duplicates\<close> for a key seen before and 1 more for a non-empty email seen before,
  so it can add 2 (as the second of two equal records does). For the three records
  of the example the counter ends at exactly 2.
\<close>

theorem analyzeData_counts_key_and_email:
  "duplicates (analyzeData (cs @ [c]) s) =
     duplicates (analyzeData cs s)
     + (if c ''Client ID'' \<in> set (map (\<lambda>x. x ''Client ID'') cs) then 1 else 0)
     + (if truthy (c ''Email'') \<and> c ''Email'' \<in> set (map (\<lambda>x. x ''Email'') cs) then 1 else 0)
   \<and> duplicates (analyzeData
        [object [(''Client ID'', ''A''), (''Email'', ''x@y.com'')],
         object [(''Client ID'', ''A''), (''Email'', ''x@y.com'')]] s) = 2
   \<and> duplicates (analyzeData
        [object [(''Client ID'', ''A''), (''Email'', ''x@y.com'')],
         object [(''Client ID'', ''A''), (''Email'', ''z@y.com'')],
         object [(''Client ID'', ''B''), (''Email'', ''x@y.com'')]] s) = 2"
proof (intro conjI)
  show "duplicates (analyzeData (cs @ [c]) s) =
     duplicates (analyzeData cs s)
     + (if c ''Client ID'' \<in> set (map (\<lambda>x. x ''Client ID'') cs) then 1 else 0)
     + (if truthy (c ''Email'') \<and> c ''Email'' \<in> set (map (\<lambda>x. x ''Email'') cs) then 1 else 0)"
    by (rule analyzeData_snoc)
qed (simp_all add: analyzeData_def analyze_client_def object_def truthy_def)

text \<open>
  C6, as stated, fails: over the dataset \<^verbatim>\<open>[null]\<close>, on a freshly constructed
  importer, \<open>importAll\<close> with \<open>dryRun\<close> true throws a \<^verbatim>\<open>TypeError\<close>, so there
  are no returned stats; only \<open>total\<close> has been assigned.
\<close>

theorem dryRun_null_element_counterexample:
  "constructor None (world_with (Data (Array [JsonNull]))) = (importer_0, null_element_world)
   \<and> files null_element_world (jsonPath importer_0) = Some (Parsed (Data (Array [JsonNull])))
   \<and> flag (dryRun dry_run_only)
   \<and> importAll importer_0 dry_run_only 0 5 [] null_element_world
       = Some (Inl TypeError,
               set_stats importer_0 (zero_stats\<lparr>total_stat := Some 1\<rparr>) null_element_world)"
  using constructor_example [of "Data (Array [JsonNull])"]
  by (simp add: null_element_world_def constructed_def world_with_def importer_0_def
      dry_run_only_def flag_def importAll_def analyzeData_of_def set_stats_def)

lemma dryRun_store:
  assumes "flag (dryRun options)"
  shows "\<exists>r w'. importAll this options startTime endTime sched w = Some (r, w')
     \<and> store w' = store w"
  using assms
  by (auto simp: importAll_def Let_def set_stats_def
      split: option.splits source_file.splits jsonData.splits sum.splits)

lemma dryRun_objects:
  assumes "flag (dryRun options)"
    and "files w (jsonPath this) = Some (Parsed (Data (Array (map JsonObject cs))))"
  shows "importAll this options startTime endTime sched w
     = Some (Inr (stats this),
             set_stats this
               (analyzeData cs ((heap w (stats this))\<lparr>total_stat := Some (int (length cs))\<rparr>)) w)"
  using assms by (simp add: importAll_def Let_def analyzeData_of_def objects_all set_stats_def)

lemma dryRun_null:
  assumes "flag (dryRun options)"
    and "files w (jsonPath this) = Some (Parsed (Data (Array es)))"
    and "JsonNull \<in> set es"
  shows "\<exists>w'. importAll this options startTime endTime sched w = Some (Inl TypeError, w')"
  using assms by (simp add: importAll_def Let_def analyzeData_of_def objects_null)

text \<open>
  C6, amended. \<open>importAll\<close> with \<open>dryRun\<close> true ends, by returning or by throwing,
  with the store exactly as it was (no statement is run, so no insert and no
  update). On a freshly constructed importer whose dataset is an array of \<open>N\<close>
  elements none of which is \<^verbatim>\<open>null\<close>, it returns, and the returned stats are those
  of \<open>analyzeData\<close>: \<open>imported = 0\<close>, \<open>errors = 0\<close>, \<open>total = N\<close> and
  \<open>skipped = duplicates\<close>. When an element of the array is \<^verbatim>\<open>null\<close> it throws
  instead of returning stats.
\<close>

theorem dryRun_leaves_store:
  assumes "flag (dryRun options)"
  shows "(\<exists>r w'. importAll this options startTime endTime sched w = Some (r, w')
            \<and> store w' = store w)
     \<and> (constructor path w0 = (this, w)
          \<and> files w (jsonPath this) = Some (Parsed (Data (Array (map JsonObject cs))))
        \<longrightarrow> (\<exists>w'. importAll this options startTime endTime sched w
                    = Some (Inr (stats this), w')
               \<and> heap w' (stats this)
                   = analyzeData cs (zero_stats\<lparr>total_stat := Some (int (length cs))\<rparr>)
               \<and> imported (heap w' (stats this)) = 0
               \<and> errors (heap w' (stats this)) = 0
               \<and> total_stat (heap w' (stats this)) = Some (int (length cs))
               \<and> skipped (heap w' (stats this)) = duplicates (heap w' (stats this))))
     \<and> (files w (jsonPath this) = Some (Parsed (Data (Array es))) \<and> JsonNull \<in> set es
        \<longrightarrow> (\<exists>w'. importAll this options startTime endTime sched w
                    = Some (Inl TypeError, w')))"
proof (intro conjI impI)
  show "\<exists>r w'. importAll this options startTime endTime sched w = Some (r, w')
      \<and> store w' = store w"
    using dryRun_store [OF assms] .
next
  assume a: "constructor path w0 = (this, w)
      \<and> files w (jsonPath this) = Some (Parsed (Data (Array (map JsonObject cs))))"
  then have z: "heap w (stats this) = zero_stats"
    using constructor_fresh(1) by blast
  from a have "importAll this options startTime endTime sched w
     = Some (Inr (stats this),
             set_stats this
               (analyzeData cs (zero_stats\<lparr>total_stat := Some (int (length cs))\<rparr>)) w)"
    using dryRun_objects [OF assms, of w this cs startTime endTime sched] z by simp
  then show "\<exists>w'. importAll this options startTime endTime sched w = Some (Inr (stats this), w')
       \<and> heap w' (stats this)
           = analyzeData cs (zero_stats\<lparr>total_stat := Some (int (length cs))\<rparr>)
       \<and> imported (heap w' (stats this)) = 0
       \<and> errors (heap w' (stats this)) = 0
       \<and> total_stat (heap w' (stats this)) = Some (int (length cs))
       \<and> skipped (heap w' (stats this)) = duplicates (heap w' (stats this))"
    by (simp add: set_stats_def analyzeData_fields zero_stats_def)
next
  assume "files w (jsonPath this) = Some (Parsed (Data (Array es))) \<and> JsonNull \<in> set es"
  then show "\<exists>w'. importAll this options startTime endTime sched w = Some (Inl TypeError, w')"
    using dryRun_null [OF assms, of w this es startTime endTime sched] by blast
qed

theorem dryRun_leaves_store_witness:
  "flag (dryRun dry_run_only)
   \<and> (\<exists>r w'. importAll importer_0 dry_run_only 0 5 [] (constructed (Data (Array (map JsonObject example_clients))))
          = Some (r, w') \<and> store w' = empty_database)
   \<and> constructor None (world_with (Data (Array (map JsonObject example_clients))))
       = (importer_0, constructed (Data (Array (map JsonObject example_clients))))
   \<and> files (constructed (Data (Array (map JsonObject example_clients)))) (jsonPath importer_0)
       = Some (Parsed (Data (Array (map JsonObject example_clients))))
   \<and> (\<exists>w'. importAll importer_0 dry_run_only 0 5 []
             (constructed (Data (Array (map JsonObject example_clients))))
           = Some (Inr (stats importer_0), w')
        \<and> imported (heap w' (stats importer_0)) = 0
        \<and> errors (heap w' (stats importer_0)) = 0
        \<and> total_stat (heap w' (stats importer_0)) = Some 3
        \<and> skipped (heap w' (stats importer_0)) = duplicates (heap w' (stats importer_0)))
   \<and> files null_element_world (jsonPath importer_0) = Some (Parsed (Data (Array [JsonNull])))
   \<and> JsonNull \<in> set [JsonNull]
   \<and> (\<exists>w'. importAll importer_0 dry_run_only 0 5 [] null_element_world
           = Some (Inl TypeError, w'))"
proof -
  let ?w = "constructed (Data (Array (map JsonObject example_clients)))"
  have d: "flag (dryRun dry_run_only)"
    by (simp add: dry_run_only_def flag_def)
  have c: "constructor None (world_with (Data (Array (map JsonObject example_clients))))
      = (importer_0, ?w)"
    by (rule constructor_example)
  have f: "files ?w (jsonPath importer_0)
      = Some (Parsed (Data (Array (map JsonObject example_clients))))"
    by (simp add: constructed_def world_with_def importer_0_def)
  have n: "files null_element_world (jsonPath importer_0) = Some (Parsed (Data (Array [JsonNull])))"
    by (simp add: null_element_world_def constructed_def world_with_def importer_0_def)
  have s: "store ?w = empty_database" "length example_clients = 3"
    by (simp_all add: constructed_def world_with_def example_clients_def)
  note t = dryRun_leaves_store [OF d, where this = importer_0 and startTime = 0 and endTime = 5
      and sched = "[]"]
  from t [where w = ?w, THEN conjunct1] s
  have 1: "\<exists>r w'. importAll importer_0 dry_run_only 0 5 [] ?w = Some (r, w')
      \<and> store w' = empty_database" by simp
  from t [where w = ?w and path = None
      and ?w0.0 = "world_with (Data (Array (map JsonObject example_clients)))"
      and cs = example_clients, THEN conjunct2, THEN conjunct1] c f s
  have 2: "\<exists>w'. importAll importer_0 dry_run_only 0 5 [] ?w = Some (Inr (stats importer_0), w')
        \<and> imported (heap w' (stats importer_0)) = 0
        \<and> errors (heap w' (stats importer_0)) = 0
        \<and> total_stat (heap w' (stats importer_0)) = Some 3
        \<and> skipped (heap w' (stats importer_0)) = duplicates (heap w' (stats importer_0))"
    by auto
  from t [where w = null_element_world and es = "[JsonNull]", THEN conjunct2, THEN conjunct2] n
  have 3: "\<exists>w'. importAll importer_0 dry_run_only 0 5 [] null_element_world
      = Some (Inl TypeError, w')" by simp
  from d 1 c f 2 n 3 show ?thesis by simp
qed

section \<open>Properties of processClient\<close>

text \<open>
  C9. For a record whose \<^verbatim>\<open>Client ID\<close> is absent or the empty string,
  \<open>processClient\<close> adds exactly 1 to \<open>errors\<close>, leaves \<open>imported\<close> and \<open>skipped\<close>
  as they were, and returns the store as it was, its log of statements included: no
  existence check, no insert and no update is run. Inside a batch such a record
  leaves no task behind.
\<close>

theorem missing_key_counts_error:
  assumes "\<not> truthy (c ''Client ID'')"
  shows "errors (fst (processClient c options (s, d))) = errors s + 1
     \<and> imported (fst (processClient c options (s, d))) = imported s
     \<and> skipped (fst (processClient c options (s, d))) = skipped s
     \<and> snd (processClient c options (s, d)) = d
     \<and> processClient_start c s = (None, fst (processClient c options (s, d)))"
  using assms
  by (auto simp: processClient_def processClient_start_def truthy_def count_error_def
      split: option.splits)

theorem missing_key_counts_error_witness:
  "\<not> truthy (object [(''Email'', ''x@y.com'')] ''Client ID'')
   \<and> \<not> truthy (object [(''Client ID'', ''''), (''Email'', ''x@y.com'')] ''Client ID'')
   \<and> errors (fst (processClient (object [(''Email'', ''x@y.com'')]) no_options
          (zero_stats, empty_database))) = 1
   \<and> snd (processClient (object [(''Email'', ''x@y.com'')]) no_options
          (zero_stats, empty_database)) = empty_database
   \<and> errors (fst (processClient (object [(''Client ID'', ''''), (''Email'', ''x@y.com'')])
          no_options (zero_stats, empty_database))) = 1
   \<and> calls (snd (processClient (object [(''Client ID'', ''''), (''Email'', ''x@y.com'')])
          no_options (zero_stats, empty_database))) = []"
proof -
  have a: "\<not> truthy (object [(''Email'', ''x@y.com'')] ''Client ID'')"
    by (simp add: truthy_def object_def)
  have b: "\<not> truthy (object [(''Client ID'', ''''), (''Email'', ''x@y.com'')] ''Client ID'')"
    by (simp add: truthy_def object_def)
  show ?thesis
    using a b
      missing_key_counts_error [of "object [(''Email'', ''x@y.com'')]"
        no_options zero_stats empty_database]
      missing_key_counts_error [of "object [(''Client ID'', ''''), (''Email'', ''x@y.com'')]"
        no_options zero_stats empty_database]
    by (simp add: zero_stats_def empty_database_def)
qed

lemma update_columns_distinct: "distinct (map fst update_columns)"
  by (simp add: update_columns_def)

lemma client_id_not_assigned: "map_of update_columns ''client_id'' = None"
  by (simp add: update_columns_def)

lemma bind_update_columns:
  "(col, property) \<in> set update_columns \<Longrightarrow> bind_columns update_columns c old col = c property"
  using map_of_is_SomeI [OF update_columns_distinct]
  by (simp add: bind_columns_def)

lemma bind_update_client_id:
  "bind_columns update_columns c old ''client_id'' = old ''client_id''"
  by (simp add: bind_columns_def client_id_not_assigned)

lemma find_map_same:
  assumes "\<And>x. P (f x) = P x"
  shows "find P (map f xs) = map_option f (find P xs)"
  using assms by (induction xs) auto

text \<open>
  C1, as stated, fails: the store holds a record with key \<open>K\<close>, the options have
  both \<open>updateExisting\<close> and \<open>skipDuplicates\<close> true, and the input record with key
  \<open>K\<close> is counted as skipped, not imported; the only statement run is the existence
  check and the stored row keeps its old values.
\<close>

theorem updateExisting_skipped_counterexample:
  "find (has_client_id (Some ''K'')) (rows database_with_K) \<noteq> None
   \<and> incoming_client ''Client ID'' = Some ''K''
   \<and> flag (updateExisting update_and_skip) \<and> flag (skipDuplicates update_and_skip)
   \<and> imported (fst (processClient incoming_client update_and_skip (zero_stats, database_with_K)))
       = imported zero_stats
   \<and> skipped (fst (processClient incoming_client update_and_skip (zero_stats, database_with_K)))
       = skipped zero_stats + 1
   \<and> calls (snd (processClient incoming_client update_and_skip (zero_stats, database_with_K)))
       = [SelectCall ''K'']
   \<and> rows (snd (processClient incoming_client update_and_skip (zero_stats, database_with_K)))
       = rows database_with_K
   \<and> cols (hd (rows (snd (processClient incoming_client update_and_skip
         (zero_stats, database_with_K))))) ''display_name'' = Some ''Old Name''
   \<and> incoming_client ''Display Name'' = Some ''New Name''"
  by (simp add: processClient_def incoming_client_def object_def update_and_skip_def
      no_options_def flag_def checkExistingClient_def fails_now_def database_with_K_def
      has_client_id_def bind_columns_def insert_columns_def update_columns_def
      stored_client_def log_call_def count_skipped_def zero_stats_def)

lemma processClient_skip:
  assumes "c ''Client ID'' = Some k" "k \<noteq> []"
    and "find (has_client_id (Some k)) (rows d) = Some r" "\<not> fails_now d"
    and "flag (skipDuplicates options)"
  shows "processClient c options (s, d) = (count_skipped s, log_call (SelectCall k) d)"
  using assms by (simp add: processClient_def checkExistingClient_def)

lemma updateClient_success:
  assumes "fst (updateClient c d) = Inr ()"
  shows "snd (updateClient c d) =
     (log_call (UpdateCall (c ''Client ID'')) d)
       \<lparr>rows := map (\<lambda>r. if has_client_id (c ''Client ID'') r
                          then r\<lparr>cols := bind_columns update_columns c (cols r)\<rparr> else r)
                   (rows d)\<rparr>"
  using assms by (auto simp: updateClient_def Let_def split: if_splits)

lemma processClient_update:
  assumes "c ''Client ID'' = Some k" "k \<noteq> []"
    and "find (has_client_id (Some k)) (rows d) = Some r" "\<not> fails_now d"
    and "\<not> flag (skipDuplicates options)" "flag (updateExisting options)"
    and ok: "fst (updateClient c (log_call (SelectCall k) d)) = Inr ()"
  shows "processClient c options (s, d)
     = (count_imported s, snd (updateClient c (log_call (SelectCall k) d)))"
  using assms
  by (cases "updateClient c (log_call (SelectCall k) d)")
     (simp add: processClient_def checkExistingClient_def)

lemma updated_row:
  assumes "find (has_client_id (Some k)) rs = Some r"
  shows "find (has_client_id (Some k))
     (map (\<lambda>r. if has_client_id (Some k) r
                then r\<lparr>cols := bind_columns update_columns c (cols r)\<rparr> else r) rs)
     = Some (r\<lparr>cols := bind_columns update_columns c (cols r)\<rparr>)"
proof -
  have "has_client_id (Some k) (if has_client_id (Some k) x
          then x\<lparr>cols := bind_columns update_columns c (cols x)\<rparr> else x)
        = has_client_id (Some k) x" for x
    by (simp add: has_client_id_def bind_update_client_id)
  from find_map_same [of "has_client_id (Some k)", OF this, of rs]
  have "find (has_client_id (Some k))
     (map (\<lambda>r. if has_client_id (Some k) r
                then r\<lparr>cols := bind_columns update_columns c (cols r)\<rparr> else r) rs)
     = map_option (\<lambda>r. if has_client_id (Some k) r
                then r\<lparr>cols := bind_columns update_columns c (cols r)\<rparr> else r)
         (find (has_client_id (Some k)) rs)" .
  moreover have "has_client_id (Some k) r"
    using assms by (auto simp: find_Some_iff)
  ultimately show ?thesis using assms by simp
qed

lemma updateClient_calls:
  "calls (snd (updateClient c d)) = calls d @ [UpdateCall (c ''Client ID'')]"
  by (simp add: updateClient_def Let_def log_call_def)

lemma updateClient_failure:
  assumes "isl (fst (updateClient c d))"
  shows "rows (snd (updateClient c d)) = rows d"
  using assms by (auto simp: updateClient_def Let_def log_call_def split: if_splits)

lemma processClient_update_any:
  assumes "c ''Client ID'' = Some k" "k \<noteq> []"
    and "find (has_client_id (Some k)) (rows d) = Some r" "\<not> fails_now d"
    and "\<not> flag (skipDuplicates options)" "flag (updateExisting options)"
  shows "processClient c options (s, d)
     = ((if isl (fst (updateClient c (log_call (SelectCall k) d)))
         then count_error s else count_imported s),
        snd (updateClient c (log_call (SelectCall k) d)))"
  using assms
  by (cases "updateClient c (log_call (SelectCall k) d)")
     (auto simp: processClient_def checkExistingClient_def split: sum.splits)

text \<open>
  C1, amended. For a record whose key \<open>K\<close> is already stored and whose existence
  check succeeds, \<open>skipDuplicates\<close> is looked at first: when it is true the record is
  counted under \<open>skipped\<close>, no update is run and the rows are unchanged, whatever
  \<open>updateExisting\<close> says. When \<open>skipDuplicates\<close> is false or absent and
  \<open>updateExisting\<close> is true, the update is run (whether it then succeeds or
  fails) and the record is not counted under \<open>skipped\<close>. If the update succeeds,
  \<open>imported\<close> grows by exactly 1 and the stored record's columns other than the
  key equal the input record's properties; if it fails, \<open>errors\<close> grows by exactly
  1 and the rows are unchanged.
\<close>

theorem skipDuplicates_precedes_updateExisting:
  assumes "c ''Client ID'' = Some k" "k \<noteq> []"
    and "find (has_client_id (Some k)) (rows d) = Some r" "\<not> fails_now d"
  shows "(flag (skipDuplicates options) \<longrightarrow>
            skipped (fst (processClient c options (s, d))) = skipped s + 1
          \<and> imported (fst (processClient c options (s, d))) = imported s
          \<and> errors (fst (processClient c options (s, d))) = errors s
          \<and> calls (snd (processClient c options (s, d))) = calls d @ [SelectCall k]
          \<and> rows (snd (processClient c options (s, d))) = rows d)
     \<and> (\<not> flag (skipDuplicates options) \<and> flag (updateExisting options) \<longrightarrow>
            calls (snd (processClient c options (s, d)))
              = calls d @ [SelectCall k, UpdateCall (Some k)]
          \<and> skipped (fst (processClient c options (s, d))) = skipped s)
     \<and> (\<not> flag (skipDuplicates options) \<and> flag (updateExisting options)
          \<and> fst (updateClient c (log_call (SelectCall k) d)) = Inr () \<longrightarrow>
            imported (fst (processClient c options (s, d))) = imported s + 1
          \<and> errors (fst (processClient c options (s, d))) = errors s
          \<and> (\<exists>r'. find (has_client_id (Some k)) (rows (snd (processClient c options (s, d))))
                    = Some r'
                \<and> cols r' ''client_id'' = Some k
                \<and> (\<forall>(col, property) \<in> set update_columns. cols r' col = c property)))
     \<and> (\<not> flag (skipDuplicates options) \<and> flag (updateExisting options)
          \<and> isl (fst (updateClient c (log_call (SelectCall k) d))) \<longrightarrow>
            errors (fst (processClient c options (s, d))) = errors s + 1
          \<and> imported (fst (processClient c options (s, d))) = imported s
          \<and> rows (snd (processClient c options (s, d))) = rows d)"
proof (intro conjI impI)
  assume on: "\<not> flag (skipDuplicates options) \<and> flag (updateExisting options)"
  let ?d1 = "log_call (SelectCall k) d"
  have p: "processClient c options (s, d)
     = ((if isl (fst (updateClient c ?d1)) then count_error s else count_imported s),
        snd (updateClient c ?d1))"
    using processClient_update_any [of c k d r options s] assms on by simp
  show "calls (snd (processClient c options (s, d))) = calls d @ [SelectCall k, UpdateCall (Some k)]"
    unfolding p using assms(1) by (simp add: updateClient_calls log_call_def)
  show "skipped (fst (processClient c options (s, d))) = skipped s"
    unfolding p by (simp add: count_error_def count_imported_def)
next
  assume ok: "\<not> flag (skipDuplicates options) \<and> flag (updateExisting options)
      \<and> fst (updateClient c (log_call (SelectCall k) d)) = Inr ()"
  let ?d1 = "log_call (SelectCall k) d"
  have p: "processClient c options (s, d) = (count_imported s, snd (updateClient c ?d1))"
    using processClient_update [of c k d r options s] assms ok by simp
  have u: "snd (updateClient c ?d1) =
     (log_call (UpdateCall (Some k)) ?d1)
       \<lparr>rows := map (\<lambda>r. if has_client_id (Some k) r
                          then r\<lparr>cols := bind_columns update_columns c (cols r)\<rparr> else r)
                   (rows ?d1)\<rparr>"
    using updateClient_success [of c ?d1] ok assms(1) by simp
  show "imported (fst (processClient c options (s, d))) = imported s + 1"
    and "errors (fst (processClient c options (s, d))) = errors s"
    by (simp_all add: p count_imported_def)
  have "find (has_client_id (Some k)) (rows (snd (processClient c options (s, d))))
      = Some (r\<lparr>cols := bind_columns update_columns c (cols r)\<rparr>)"
    unfolding p u using updated_row [OF assms(3), of c] by (simp add: log_call_def)
  moreover have "cols r ''client_id'' = Some k"
    using assms(3) by (auto simp: find_Some_iff has_client_id_def)
  ultimately show "\<exists>r'. find (has_client_id (Some k)) (rows (snd (processClient c options (s, d))))
         = Some r'
      \<and> cols r' ''client_id'' = Some k
      \<and> (\<forall>(col, property) \<in> set update_columns. cols r' col = c property)"
    by (auto simp: bind_update_columns bind_update_client_id)
next
  assume bad: "\<not> flag (skipDuplicates options) \<and> flag (updateExisting options)
      \<and> isl (fst (updateClient c (log_call (SelectCall k) d)))"
  let ?d1 = "log_call (SelectCall k) d"
  have p: "processClient c options (s, d) = (count_error s, snd (updateClient c ?d1))"
    using processClient_update_any [of c k d r options s] assms bad by simp
  show "errors (fst (processClient c options (s, d))) = errors s + 1"
    and "imported (fst (processClient c options (s, d))) = imported s"
    by (simp_all add: p count_error_def)
  show "rows (snd (processClient c options (s, d))) = rows d"
    unfolding p using updateClient_failure [of c ?d1] bad by (simp add: log_call_def)
qed (use processClient_skip [of c k d r options s] assms in
    \<open>simp_all add: count_skipped_def log_call_def\<close>)

theorem skipDuplicates_precedes_updateExisting_witness:
  "incoming_client ''Client ID'' = Some ''K''
   \<and> find (has_client_id (Some ''K'')) (rows database_with_K) = Some (hd (rows database_with_K))
   \<and> \<not> fails_now database_with_K
   \<and> flag (skipDuplicates update_and_skip)
   \<and> skipped (fst (processClient incoming_client update_and_skip (zero_stats, database_with_K))) = 1
   \<and> rows (snd (processClient incoming_client update_and_skip (zero_stats, database_with_K)))
       = rows database_with_K
   \<and> \<not> flag (skipDuplicates update_only) \<and> flag (updateExisting update_only)
   \<and> calls (snd (processClient incoming_client update_only (zero_stats, database_with_K)))
       = [SelectCall ''K'', UpdateCall (Some ''K'')]
   \<and> fst (updateClient incoming_client (log_call (SelectCall ''K'') database_with_K)) = Inr ()
   \<and> imported (fst (processClient incoming_client update_only (zero_stats, database_with_K))) = 1
   \<and> (\<exists>r'. find (has_client_id (Some ''K''))
               (rows (snd (processClient incoming_client update_only (zero_stats, database_with_K))))
             = Some r'
          \<and> (\<forall>(col, property) \<in> set update_columns. cols r' col = incoming_client property))
   \<and> isl (fst (updateClient keyed_client (log_call (SelectCall ''K'') database_with_K)))
   \<and> errors (fst (processClient keyed_client update_only (zero_stats, database_with_K))) = 1
   \<and> rows (snd (processClient keyed_client update_only (zero_stats, database_with_K)))
       = rows database_with_K"
proof -
  have key: "incoming_client ''Client ID'' = Some ''K''"
    by (simp add: incoming_client_def object_def)
  have key': "keyed_client ''Client ID'' = Some ''K''"
    by (simp add: keyed_client_def object_def)
  have nonempty: "''K'' \<noteq> []" by simp
  have found: "find (has_client_id (Some ''K'')) (rows database_with_K)
      = Some (hd (rows database_with_K))"
    by (simp add: database_with_K_def has_client_id_def bind_columns_def insert_columns_def
        stored_client_def object_def)
  have up: "\<not> fails_now database_with_K"
    by (simp add: fails_now_def database_with_K_def)
  have skip: "flag (skipDuplicates update_and_skip)"
    by (simp add: update_and_skip_def flag_def)
  have upd: "\<not> flag (skipDuplicates update_only) \<and> flag (updateExisting update_only)"
    by (simp add: update_only_def no_options_def flag_def)
  have ok: "fst (updateClient incoming_client (log_call (SelectCall ''K'') database_with_K)) = Inr ()"
    by (simp add: updateClient_def Let_def log_call_def fails_now_def database_with_K_def
        has_client_id_def violates_not_null_def not_null_columns_def bind_columns_def
        insert_columns_def update_columns_def stored_client_def incoming_client_def object_def)
  have bad: "isl (fst (updateClient keyed_client (log_call (SelectCall ''K'') database_with_K)))"
    by (simp add: updateClient_def Let_def log_call_def fails_now_def database_with_K_def
        has_client_id_def violates_not_null_def not_null_columns_def bind_columns_def
        insert_columns_def update_columns_def stored_client_def keyed_client_def object_def)
  have start: "calls database_with_K = []"
    by (simp add: database_with_K_def)
  note a = skipDuplicates_precedes_updateExisting
    [of incoming_client "''K''" database_with_K "hd (rows database_with_K)" update_and_skip
      zero_stats, OF key nonempty found up]
  note b = skipDuplicates_precedes_updateExisting
    [of incoming_client "''K''" database_with_K "hd (rows database_with_K)" update_only
      zero_stats, OF key nonempty found up]
  note c = skipDuplicates_precedes_updateExisting
    [of keyed_client "''K''" database_with_K "hd (rows database_with_K)" update_only
      zero_stats, OF key' nonempty found up]
  from a skip have 1:
    "skipped (fst (processClient incoming_client update_and_skip (zero_stats, database_with_K))) = 1"
    "rows (snd (processClient incoming_client update_and_skip (zero_stats, database_with_K)))
       = rows database_with_K"
    by (simp_all add: zero_stats_def)
  from b upd start have 2:
    "calls (snd (processClient incoming_client update_only (zero_stats, database_with_K)))
       = [SelectCall ''K'', UpdateCall (Some ''K'')]"
    by simp
  from b upd ok have 3:
    "imported (fst (processClient incoming_client update_only (zero_stats, database_with_K))) = 1"
    "\<exists>r'. find (has_client_id (Some ''K''))
               (rows (snd (processClient incoming_client update_only (zero_stats, database_with_K))))
             = Some r'
          \<and> (\<forall>(col, property) \<in> set update_columns. cols r' col = incoming_client property)"
    by (simp add: zero_stats_def, blast)
  from c upd bad have 4:
    "errors (fst (processClient keyed_client update_only (zero_stats, database_with_K))) = 1"
    "rows (snd (processClient keyed_client update_only (zero_stats, database_with_K)))
       = rows database_with_K"
    by (simp_all add: zero_stats_def)
  from key found up skip upd ok bad 1 2 3 4 show ?thesis by blast
qed

section \<open>Properties of processBatch and importAll\<close>

lemma sum_list_update:
  fixes f :: "'a \<Rightarrow> nat"
  shows "i < length xs \<Longrightarrow> sum_list (map f (xs[i := y])) + f (xs ! i) = sum_list (map f xs) + f y"
proof (induction xs arbitrary: i)
  case Nil
  then show ?case by simp
next
  case (Cons x xs)
  then show ?case by (cases i) auto
qed

lemma sum_list_remove:
  fixes f :: "'a \<Rightarrow> nat"
  shows "i < length xs \<Longrightarrow>
    sum_list (map f (take i xs @ drop (Suc i) xs)) + f (xs ! i) = sum_list (map f xs)"
proof (induction xs arbitrary: i)
  case Nil
  then show ?case by simp
next
  case (Cons x xs)
  show ?case
  proof (cases i)
    case 0
    then show ?thesis by simp
  next
    case (Suc n)
    with Cons.prems have "n < length xs" by simp
    from Cons.IH [OF this] show ?thesis using Suc by simp
  qed
qed

lemma advance_invariant:
  fixes f :: "task \<Rightarrow> nat" and \<phi> :: "run \<Rightarrow> int"
  assumes step: "\<And>t sd r sd'. processClient_resume options t sd = (r, sd') \<Longrightarrow>
      \<phi> sd' + int (case r of None \<Rightarrow> 0 | Some t' \<Rightarrow> f t') = \<phi> sd + int (f t)"
    and i: "i < length pending"
    and a: "advance options i pending sd = (pending', sd')"
  shows "\<phi> sd' + int (sum_list (map f pending')) = \<phi> sd + int (sum_list (map f pending))"
proof -
  obtain r sd1 where Pair: "processClient_resume options (pending ! i) sd = (r, sd1)"
    by (cases "processClient_resume options (pending ! i) sd") auto
  note s = step [OF Pair]
  show ?thesis
  proof (cases r)
    case None
    with Pair a have "pending' = take i pending @ drop (Suc i) pending" "sd' = sd1"
      by (auto simp: advance_def)
    then show ?thesis
      using s None sum_list_remove [OF i, of f] by simp
  next
    case (Some t)
    with Pair a have "pending' = pending[i := t]" "sd' = sd1"
      by (auto simp: advance_def)
    then show ?thesis
      using s Some sum_list_update [OF i, of f t] by simp
  qed
qed

lemma settle_invariant:
  fixes f :: "task \<Rightarrow> nat" and \<phi> :: "run \<Rightarrow> int"
  shows "(\<And>t sd r sd'. processClient_resume options t sd = (r, sd') \<Longrightarrow>
      \<phi> sd' + int (case r of None \<Rightarrow> 0 | Some t' \<Rightarrow> f t') = \<phi> sd + int (f t)) \<Longrightarrow>
    settle options sched pending sd = (sd', sched') \<Longrightarrow>
    \<phi> sd' = \<phi> sd + int (sum_list (map f pending))"
proof (induction options sched pending sd rule: settle.induct)
  case (1 options sched pending sd)
  show ?case
  proof (cases "pending = []")
    case True
    then show ?thesis using "1.prems"(2) by simp
  next
    case False
    obtain pending1 sd1 where
      a: "advance options (pick sched (length pending)) pending sd = (pending1, sd1)"
      by (cases "advance options (pick sched (length pending)) pending sd") auto
    then have "settle options (tl sched) pending1 sd1 = (sd', sched')"
      using "1.prems"(2) False by (subst (asm) settle.simps) simp
    then have "\<phi> sd' = \<phi> sd1 + int (sum_list (map f pending1))"
      using "1.IH" [OF False a [symmetric] "1.prems"(1)] by simp
    moreover have "\<phi> sd1 + int (sum_list (map f pending1)) = \<phi> sd + int (sum_list (map f pending))"
      using advance_invariant [of options \<phi> f, OF "1.prems"(1) pick_less [OF False] a] by simp
    ultimately show ?thesis by simp
  qed
qed

lemma resume_accounted:
  "processClient_resume options t sd = (r, sd') \<Longrightarrow>
     accounted (fst sd') + int (case r of None \<Rightarrow> 0 | Some t' \<Rightarrow> 1)
       = accounted (fst sd) + int 1"
  by (cases t; cases sd)
     (auto simp: accounted_def count_error_def count_skipped_def count_imported_def
       split: prod.splits sum.splits option.splits if_splits)

lemma selects_log_call:
  "selects (log_call call d) = selects d + (if is_select call then 1 else 0)"
  by (simp add: selects_def log_call_def)

lemma adapter_selects:
  "selects (snd (checkExistingClient k d)) = selects d + 1"
  "selects (snd (insertClient c d)) = selects d"
  "selects (snd (updateClient c d)) = selects d"
  by (simp_all add: checkExistingClient_def insertClient_def updateClient_def Let_def
      selects_def log_call_def)

lemma resume_selects:
  assumes "processClient_resume options t sd = (r, sd')"
  shows "int (selects (snd sd')) + int (case r of None \<Rightarrow> 0 | Some t' \<Rightarrow> awaits_check t')
       = int (selects (snd sd)) + int (awaits_check t)"
proof (cases sd)
  case (Pair s d)
  show ?thesis
  proof (cases t)
    case (AwaitCheck k c)
    with assms Pair adapter_selects(1) [of k d] show ?thesis
      by (cases "checkExistingClient k d") (auto split: sum.splits option.splits if_splits)
  next
    case (AwaitInsert c)
    with assms Pair adapter_selects(2) [of c d] show ?thesis
      by (cases "insertClient c d") (auto split: sum.splits)
  next
    case (AwaitUpdate c)
    with assms Pair adapter_selects(3) [of c d] show ?thesis
      by (cases "updateClient c d") (auto split: sum.splits)
  qed
qed

lemma resume_total:
  "processClient_resume options t sd = (r, sd') \<Longrightarrow>
     total_stat (fst sd') = total_stat (fst sd) \<and> duplicates (fst sd') = duplicates (fst sd)
     \<and> processingTime (fst sd') = processingTime (fst sd)"
  by (cases t; cases sd)
     (auto simp: count_error_def count_skipped_def count_imported_def
       split: prod.splits sum.splits option.splits if_splits)

lemma start_all_accounted:
  "start_all es s = (ts, s') \<Longrightarrow>
     accounted s' + int (length ts) = accounted s + int (length (filter is_object es))
   \<and> sum_list (map awaits_check ts) = length ts
   \<and> length ts = length (filter keyed es)
   \<and> total_stat s' = total_stat s"
proof (induction es arbitrary: s ts s')
  case Nil
  then show ?case by simp
next
  case (Cons e es)
  show ?case
  proof (cases e)
    case JsonNull
    with Cons.prems have "start_all es s = (ts, s')" by simp
    from Cons.IH [OF this] show ?thesis using JsonNull by simp
  next
    case (JsonObject c)
    show ?thesis
    proof (cases "has_key c")
      case True
      then obtain k where k: "c ''Client ID'' = Some k" "k \<noteq> []"
        by (auto simp: has_key_def truthy_def split: option.splits)
      obtain ts1 s1 where r: "start_all es s = (ts1, s1)"
        by (cases "start_all es s") auto
      with Cons.prems k JsonObject have "ts = AwaitCheck k c # ts1" "s' = s1"
        by (auto simp: processClient_start_def)
      then show ?thesis using Cons.IH [OF r] True JsonObject by simp
    next
      case False
      then have "processClient_start c s = (None, count_error s)"
        by (auto simp: processClient_start_def has_key_def truthy_def split: option.splits)
      with Cons.prems JsonObject have "start_all es (count_error s) = (ts, s')" by simp
      from Cons.IH [OF this] show ?thesis
        using False JsonObject by (simp add: accounted_def count_error_def)
    qed
  qed
qed

lemma settle_accounted:
  assumes "settle options sched pending sd = (sd', sched')"
  shows "accounted (fst sd') = accounted (fst sd) + int (length pending)"
proof -
  have "accounted (fst sd') = accounted (fst sd) + int (sum_list (map (\<lambda>t. 1) pending))"
    by (rule settle_invariant [where \<phi> = "\<lambda>sd. accounted (fst sd)" and f = "\<lambda>t. 1", OF _ assms])
       (use resume_accounted in simp)
  then show ?thesis by (simp add: sum_list_triv)
qed

lemma settle_selects:
  assumes "settle options sched pending sd = (sd', sched')"
  shows "selects (snd sd') = selects (snd sd) + sum_list (map awaits_check pending)"
proof -
  have "int (selects (snd sd'))
      = int (selects (snd sd)) + int (sum_list (map awaits_check pending))"
    by (rule settle_invariant [where \<phi> = "\<lambda>sd. int (selects (snd sd))" and f = awaits_check,
          OF _ assms])
       (use resume_selects in simp)
  then show ?thesis by simp
qed

lemma settle_total:
  assumes "settle options sched pending sd = (sd', sched')"
  shows "total_stat (fst sd') = total_stat (fst sd)"
proof -
  let ?same = "\<lambda>x. if total_stat (fst x) = total_stat (fst sd) then (0::int) else 1"
  have "?same sd' = ?same sd + int (sum_list (map (\<lambda>t. 0) pending))"
    by (rule settle_invariant [where \<phi> = ?same and f = "\<lambda>t. 0", OF _ assms])
       (use resume_total in \<open>auto split: option.splits\<close>)
  then show ?thesis by (simp split: if_splits)
qed

lemma processBatch_counts:
  assumes "processBatch options sched batch sd = (sd', sched')"
  shows "accounted (fst sd') = accounted (fst sd) + int (length (filter is_object batch))"
    and "selects (snd sd') = selects (snd sd) + length (filter keyed batch)"
    and "total_stat (fst sd') = total_stat (fst sd)"
proof -
  obtain s d where sd: "sd = (s, d)" by (cases sd) auto
  obtain ts s1 where st: "start_all batch s = (ts, s1)" by (cases "start_all batch s") auto
  from assms sd st have se: "settle options sched ts (s1, d) = (sd', sched')"
    by (simp add: processBatch_def)
  note a = start_all_accounted [OF st]
  show "accounted (fst sd') = accounted (fst sd) + int (length (filter is_object batch))"
    using settle_accounted [OF se] a sd by simp
  show "selects (snd sd') = selects (snd sd) + length (filter keyed batch)"
    using settle_selects [OF se] a sd by simp
  show "total_stat (fst sd') = total_stat (fst sd)"
    using settle_total [OF se] a sd by simp
qed

lemma process_batches_counts:
  "process_batches options sched batches sd = (sd', sched') \<Longrightarrow>
     accounted (fst sd') = accounted (fst sd) + int (length (filter is_object (concat batches)))
   \<and> selects (snd sd') = selects (snd sd) + length (filter keyed (concat batches))
   \<and> total_stat (fst sd') = total_stat (fst sd)"
proof (induction batches arbitrary: sched sd)
  case Nil
  then show ?case by simp
next
  case (Cons batch batches)
  obtain sd1 sched1 where b: "processBatch options sched batch sd = (sd1, sched1)"
    by (cases "processBatch options sched batch sd") auto
  with Cons.prems have "process_batches options sched1 batches sd1 = (sd', sched')"
    by simp
  from Cons.IH [OF this] processBatch_counts [OF b] show ?case by simp
qed

text \<open>
  What a call of \<open>importAll\<close> does that reads an array, is not a dry run and has a
  positive batch size: every element that is not \<^verbatim>\<open>null\<close> is counted once, and
  the existence check is run once for every element that has a key.
\<close>

lemma importAll_real_run:
  assumes src: "files w (jsonPath this) = Some (Parsed (Data (Array es)))"
    and real: "\<not> flag (dryRun options)"
    and size: "0 < effective_batchSize options"
  shows "\<exists>w'. importAll this options startTime endTime sched w = Some (Inr (stats this), w')
     \<and> accounted (heap w' (stats this))
         = accounted (heap w (stats this)) + int (length (filter is_object es))
     \<and> total_stat (heap w' (stats this)) = Some (int (length es))
     \<and> processingTime (heap w' (stats this)) = endTime - startTime
     \<and> selects (store w') = selects (store w) + length (filter keyed es)
     \<and> files w' = files w"
proof -
  let ?s0 = "(heap w (stats this))\<lparr>total_stat := Some (int (length es))\<rparr>"
  obtain batches where cb: "createBatches es (effective_batchSize options) = Some batches"
    and cc: "concat batches = es"
    using createBatches_positive [OF size, of es] by blast
  obtain s1 d1 sched1 where
    pb: "process_batches options sched batches (?s0, store w) = ((s1, d1), sched1)"
    by (cases "process_batches options sched batches (?s0, store w)") auto
  let ?w' = "set_stats this (s1\<lparr>processingTime := endTime - startTime\<rparr>)
      ((set_stats this ?s0 w)\<lparr>store := d1\<rparr>)"
  have r: "importAll this options startTime endTime sched w = Some (Inr (stats this), ?w')"
    using src real cb pb by (simp add: importAll_def run_batches_def Let_def)
  from process_batches_counts [OF pb] cc
  have "accounted s1 = accounted ?s0 + int (length (filter is_object es))"
    and "selects d1 = selects (store w) + length (filter keyed es)"
    and "total_stat s1 = Some (int (length es))"
    by simp_all
  then have "accounted (heap ?w' (stats this))
        = accounted (heap w (stats this)) + int (length (filter is_object es))"
    and "total_stat (heap ?w' (stats this)) = Some (int (length es))"
    and "processingTime (heap ?w' (stats this)) = endTime - startTime"
    and "selects (store ?w') = selects (store w) + length (filter keyed es)"
    and "files ?w' = files w"
    by (simp_all add: set_stats_def accounted_def)
  with r show ?thesis by blast
qed

section \<open>A null element in the dataset\<close>

lemma insert_incoming:
  "insertClient incoming_client (log_call (SelectCall ''K'') empty_database)
     = (Inr (), \<lparr>rows = [\<lparr>row_id = 1,
                            cols = bind_columns insert_columns incoming_client (\<lambda>col. None)\<rparr>],
                 next_id = 2, calls = [SelectCall ''K'', InsertCall (Some ''K'')],
                 outage = (\<lambda>n. False)\<rparr>)"
  by (simp add: insertClient_def Let_def log_call_def fails_now_def empty_database_def
      violates_not_null_def not_null_columns_def bind_columns_def insert_columns_def
      update_columns_def incoming_client_def object_def)

lemma check_empty:
  "checkExistingClient ''K'' empty_database
     = (Inr None, log_call (SelectCall ''K'') empty_database)"
  by (simp add: checkExistingClient_def fails_now_def empty_database_def)

lemma incoming_key: "incoming_client ''Client ID'' = Some ''K''"
  by (simp add: incoming_client_def object_def)

lemma batch_null_and_record:
  "processBatch no_options [] [JsonNull, JsonObject incoming_client] (s, empty_database)
     = ((count_imported s,
         \<lparr>rows = [\<lparr>row_id = 1,
                    cols = bind_columns insert_columns incoming_client (\<lambda>col. None)\<rparr>],
          next_id = 2, calls = [SelectCall ''K'', InsertCall (Some ''K'')],
          outage = (\<lambda>n. False)\<rparr>), [])"
  by (simp add: processBatch_def processClient_start_def incoming_key pick_def advance_def
      check_empty insert_incoming)

text \<open>
  C2 fails on the code. On a freshly constructed importer over the dataset
  \<^verbatim>\<open>[null, record]\<close>, with \<open>dryRun\<close> false and the default batch size of 100,
  \<open>importAll\<close> returns normally with \<open>total = 2\<close> and
  \<open>imported + skipped + errors = 1\<close>: the record is inserted and counted, and the
  \<^verbatim>\<open>null\<close> is counted nowhere, because the \<^verbatim>\<open>catch\<close> of \<open>processClient\<close> throws
  on its first line and never reaches \<^verbatim>\<open>this.stats.errors++\<close>.
\<close>

theorem null_element_not_counted:
  "constructor None (world_with (Data (Array [JsonNull, JsonObject incoming_client])))
     = (importer_0, null_and_record_world)
   \<and> files null_and_record_world (jsonPath importer_0)
       = Some (Parsed (Data (Array [JsonNull, JsonObject incoming_client])))
   \<and> \<not> flag (dryRun no_options) \<and> 0 < effective_batchSize no_options
   \<and> importAll importer_0 no_options 0 5 [] null_and_record_world
       = Some (Inr (stats importer_0), null_and_record_result)
   \<and> total_stat (heap null_and_record_result (stats importer_0)) = Some 2
   \<and> imported (heap null_and_record_result (stats importer_0))
       + skipped (heap null_and_record_result (stats importer_0))
       + errors (heap null_and_record_result (stats importer_0)) = 1"
proof -
  have c: "constructor None (world_with (Data (Array [JsonNull, JsonObject incoming_client])))
      = (importer_0, null_and_record_world)"
    using constructor_example [of "Data (Array [JsonNull, JsonObject incoming_client])"]
    by (simp add: null_and_record_world_def)
  have f: "files null_and_record_world (jsonPath importer_0)
      = Some (Parsed (Data (Array [JsonNull, JsonObject incoming_client])))"
    by (simp add: null_and_record_world_def constructed_def world_with_def importer_0_def)
  have o: "\<not> flag (dryRun no_options) \<and> 0 < effective_batchSize no_options"
    by (simp add: flag_def no_options_def effective_batchSize_def)
  have b: "createBatches [JsonNull, JsonObject incoming_client] (effective_batchSize no_options)
      = Some [[JsonNull, JsonObject incoming_client]]"
    by (simp add: effective_batchSize_def no_options_def createBatches_def
        createBatches_loop.simps slice_def)
  have s: "store null_and_record_world = empty_database"
    "heap null_and_record_world (stats importer_0) = zero_stats"
    by (simp_all add: null_and_record_world_def constructed_def world_with_def)
  have r: "importAll importer_0 no_options 0 5 [] null_and_record_world
      = Some (Inr (stats importer_0), null_and_record_result)"
    using f o b s
    by (simp add: importAll_def run_batches_def Let_def batch_null_and_record
        null_and_record_result_def set_stats_def count_imported_def zero_stats_def)
  have t: "total_stat (heap null_and_record_result (stats importer_0)) = Some 2"
    "imported (heap null_and_record_result (stats importer_0))
       + skipped (heap null_and_record_result (stats importer_0))
       + errors (heap null_and_record_result (stats importer_0)) = 1"
    by (simp_all add: null_and_record_result_def set_stats_def)
  from c f o r t show ?thesis by simp
qed

section \<open>A source file without a Sheet1 array\<close>

text \<open>
  C10, as stated, fails. A file whose content is \<^verbatim>\<open>null\<close> exists, parses and
  holds no \<^verbatim>\<open>Sheet1\<close> array, and \<open>importAll\<close> throws a \<^verbatim>\<open>TypeError\<close> on it.
  A file whose \<^verbatim>\<open>Sheet1\<close> is the string \<^verbatim>\<open>"abc"\<close> is not an empty dataset
  either: \<open>total\<close> becomes 3, and a call that is not a dry run throws.
\<close>

theorem no_Sheet1_array_counterexample:
  "constructor None (world_with NullData) = (importer_0, null_file_world)
   \<and> files null_file_world (jsonPath importer_0) = Some (Parsed NullData)
   \<and> importAll importer_0 no_options 0 5 [] null_file_world
       = Some (Inl TypeError, null_file_world)
   \<and> constructor None (world_with (Data (Text ''abc''))) = (importer_0, text_world)
   \<and> files text_world (jsonPath importer_0) = Some (Parsed (Data (Text ''abc'')))
   \<and> importAll importer_0 no_options 0 5 [] text_world
       = Some (Inl TypeError,
               set_stats importer_0 (zero_stats\<lparr>total_stat := Some 3\<rparr>) text_world)"
proof -
  have "constructor None (world_with NullData) = (importer_0, null_file_world)"
    using constructor_example [of NullData] by (simp add: null_file_world_def)
  moreover have "constructor None (world_with (Data (Text ''abc''))) = (importer_0, text_world)"
    using constructor_example [of "Data (Text ''abc'')"] by (simp add: text_world_def)
  moreover have "files null_file_world (jsonPath importer_0) = Some (Parsed NullData)"
    and "files text_world (jsonPath importer_0) = Some (Parsed (Data (Text ''abc'')))"
    by (simp_all add: null_file_world_def text_world_def constructed_def world_with_def
        importer_0_def)
  moreover have "importAll importer_0 no_options 0 5 [] null_file_world
      = Some (Inl TypeError, null_file_world)"
    by (simp add: importAll_def null_file_world_def constructed_def world_with_def
        importer_0_def)
  moreover have "importAll importer_0 no_options 0 5 [] text_world
      = Some (Inl TypeError,
              set_stats importer_0 (zero_stats\<lparr>total_stat := Some 3\<rparr>) text_world)"
    by (simp add: importAll_def run_batches_def text_world_def constructed_def world_with_def
        importer_0_def flag_def no_options_def effective_batchSize_def createBatches_def
        createBatches_loop.simps slice_def set_stats_def)
  ultimately show ?thesis by simp
qed

text \<open>
  C10, amended. When the source file parses to a value other than \<^verbatim>\<open>null\<close> whose
  \<^verbatim>\<open>Sheet1\<close> property is absent or falsy (\<^verbatim>\<open>null\<close>, \<^verbatim>\<open>false\<close>, \<^verbatim>\<open>0\<close> or the
  empty string), \<open>importAll\<close> on a freshly constructed importer returns normally,
  whatever the options: \<open>total\<close>, \<open>imported\<close>, \<open>skipped\<close>, \<open>errors\<close> and
  \<open>duplicates\<close> are 0 and the store is as it was, its log of statements included.
\<close>

theorem missing_Sheet1_is_empty_dataset:
  assumes "constructor path w0 = (this, w)"
    and "files w (jsonPath this) = Some (Parsed (Data sheet))"
    and "sheet = Absent \<or> sheet = Falsy \<or> sheet = Text []"
  shows "\<exists>w'. importAll this options startTime endTime sched w = Some (Inr (stats this), w')
     \<and> store w' = store w
     \<and> total_stat (heap w' (stats this)) = Some 0
     \<and> imported (heap w' (stats this)) = 0
     \<and> skipped (heap w' (stats this)) = 0
     \<and> errors (heap w' (stats this)) = 0
     \<and> duplicates (heap w' (stats this)) = 0"
proof -
  have e: "or_empty sheet = Elements []"
    using assms(3) by auto
  show ?thesis
    using assms(2) e constructor_fresh(1) [OF assms(1)]
    by (simp add: importAll_def Let_def set_stats_def analyzeData_of_def analyzeData_def
        run_batches_def zero_stats_def createBatches_def createBatches_loop.simps)
qed

theorem missing_Sheet1_is_empty_dataset_witness:
  "constructor None (world_with (Data Absent)) = (importer_0, world_without_Sheet1)
   \<and> files world_without_Sheet1 (jsonPath importer_0) = Some (Parsed (Data Absent))
   \<and> (Absent = Absent \<or> Absent = Falsy \<or> Absent = Text [])
   \<and> (\<exists>w'. importAll importer_0 no_options 0 5 [] world_without_Sheet1
           = Some (Inr (stats importer_0), w')
        \<and> store w' = empty_database
        \<and> total_stat (heap w' (stats importer_0)) = Some 0
        \<and> imported (heap w' (stats importer_0)) = 0
        \<and> skipped (heap w' (stats importer_0)) = 0
        \<and> errors (heap w' (stats importer_0)) = 0
        \<and> duplicates (heap w' (stats importer_0)) = 0)"
proof -
  have c: "constructor None (world_with (Data Absent)) = (importer_0, world_without_Sheet1)"
    using constructor_example [of "Data Absent"] by (simp add: world_without_Sheet1_def)
  have f: "files world_without_Sheet1 (jsonPath importer_0) = Some (Parsed (Data Absent))"
    by (simp add: world_without_Sheet1_def constructed_def world_with_def importer_0_def)
  have a: "Absent = Absent \<or> Absent = Falsy \<or> Absent = Text []" by simp
  have s: "store world_without_Sheet1 = empty_database"
    by (simp add: world_without_Sheet1_def constructed_def world_with_def)
  show ?thesis
    using missing_Sheet1_is_empty_dataset [OF c f a, of no_options 0 5 "[]"] c f s
    by simp
qed

section \<open>What importAll throws and what it absorbs\<close>












section \<open>Properties of the stats object\<close>

lemma first_call:
  "importAll importer_0 no_options 0 5 [] world_0 = Some (Inr (stats importer_0), world_1)"
  by (simp add: importAll_def run_batches_def importer_0_def world_0_def world_1_def
      example_world_def world_with_def no_options_def flag_def effective_batchSize_def
      createBatches_def createBatches_loop.simps slice_def processBatch_def
      processClient_start_def keyless_client_def object_def count_error_def zero_stats_def
      set_stats_def)

lemma second_call:
  "importAll importer_0 no_options 10 15 [] world_1 = Some (Inr (stats importer_0), world_2)"
  by (simp add: importAll_def run_batches_def importer_0_def world_0_def world_1_def world_2_def
      example_world_def world_with_def no_options_def flag_def effective_batchSize_def
      createBatches_def createBatches_loop.simps slice_def processBatch_def
      processClient_start_def keyless_client_def object_def count_error_def zero_stats_def
      set_stats_def)

lemma importAll_returns_own_stats:
  "importAll this options startTime endTime sched w = Some (Inr a, w') \<Longrightarrow> a = stats this"
  by (auto simp: importAll_def Let_def
      split: option.splits source_file.splits jsonData.splits sum.splits prod.splits if_splits)

lemma getStats_copy:
  assumes "stats this < next_addr w" "getStats this w = (b, w')"
  shows "b \<noteq> stats this" "heap w' b = heap w (stats this)"
    "heap (assign b v w') (stats this) = heap w (stats this)"
  using assms by (auto simp: getStats_def new_object_def assign_def)

lemma resetStats_new_object:
  assumes "resetStats this w = (this', w1)"
  shows "stats this' = next_addr w" "heap w1 (stats this') = zero_stats"
    "stats this < next_addr w \<Longrightarrow> stats this' \<noteq> stats this"
    "stats this < next_addr w \<Longrightarrow> heap w1 (stats this) = heap w (stats this)"
  using assms by (auto simp: resetStats_def new_object_def)

text \<open>
  C4, as stated, fails. On one importer over a dataset of one record without a key,
  the first \<open>importAll\<close> ends with \<open>errors = 1\<close> and the second, on the same importer,
  with \<open>errors = 2\<close> for a \<open>total\<close> of 1: the second call started from the counts of
  the first. Both calls return the address of the importer's own stats object, so a
  write through the returned reference is a write to the importer's stats.
\<close>

theorem importAll_accumulates_counterexample:
  "constructor None (example_world [keyless_client]) = (importer_0, world_0)
   \<and> importAll importer_0 no_options 0 5 [] world_0 = Some (Inr (stats importer_0), world_1)
   \<and> errors (heap world_1 (stats importer_0)) = 1
   \<and> importAll importer_0 no_options 10 15 [] world_1 = Some (Inr (stats importer_0), world_2)
   \<and> errors (heap world_2 (stats importer_0)) = 2
   \<and> total_stat (heap world_2 (stats importer_0)) = Some 1
   \<and> errors (heap (assign (stats importer_0) (zero_stats\<lparr>errors := 99\<rparr>) world_1)
         (stats importer_0)) = 99"
proof -
  have "constructor None (example_world [keyless_client]) = (importer_0, world_0)"
    using constructor_example [of "Data (Array [JsonObject keyless_client])"]
    by (simp add: example_world_def constructed_def world_0_def)
  moreover have "errors (heap world_1 (stats importer_0)) = 1"
    and "errors (heap world_2 (stats importer_0)) = 2"
    and "total_stat (heap world_2 (stats importer_0)) = Some 1"
    and "errors (heap (assign (stats importer_0) (zero_stats\<lparr>errors := 99\<rparr>) world_1)
         (stats importer_0)) = 99"
    by (simp_all add: world_1_def world_2_def set_stats_def assign_def)
  ultimately show ?thesis using first_call second_call by simp
qed

text \<open>
  C4, amended. The stats object is created, with all six counters zero, by the
  constructor; \<open>resetStats\<close> makes a new object of zeros and points the importer at
  it, leaving the old object as it was; \<open>importAll\<close> does neither. A call over an
  array that is not a dry run and has a positive batch size sets \<open>total\<close> to the
  number of elements and adds to \<open>imported\<close>, \<open>skipped\<close> and \<open>errors\<close>, their sum
  growing by the number of elements that are not \<^verbatim>\<open>null\<close>: on a freshly constructed
  importer they start at zero, and a further call on the same importer continues
  from the counts of the call before. \<open>importAll\<close> returns the importer's own stats
  object; the copy is what \<open>getStats\<close> returns, and a write to that copy leaves the
  importer's stats as they are.
\<close>

theorem stats_belong_to_importer:
  "(constructor path w0 = (this, w) \<longrightarrow> heap w (stats this) = zero_stats)
   \<and> (resetStats this w = (this', w1) \<and> stats this < next_addr w
      \<longrightarrow> stats this' \<noteq> stats this \<and> stats this' = next_addr w
        \<and> heap w1 (stats this') = zero_stats
        \<and> heap w1 (stats this) = heap w (stats this))
   \<and> (importAll this options startTime endTime sched w = Some (Inr a, w2) \<longrightarrow> a = stats this)
   \<and> (files w (jsonPath this) = Some (Parsed (Data (Array es))) \<and> \<not> flag (dryRun options)
        \<and> 0 < effective_batchSize options
      \<longrightarrow> (\<exists>w'. importAll this options startTime endTime sched w = Some (Inr (stats this), w')
             \<and> imported (heap w' (stats this)) + skipped (heap w' (stats this))
                 + errors (heap w' (stats this))
                = imported (heap w (stats this)) + skipped (heap w (stats this))
                  + errors (heap w (stats this)) + int (length (filter is_object es))
             \<and> total_stat (heap w' (stats this)) = Some (int (length es))))
   \<and> (stats this < next_addr w \<and> getStats this w = (b, w3)
      \<longrightarrow> b \<noteq> stats this \<and> heap w3 b = heap w (stats this)
        \<and> heap (assign b v w3) (stats this) = heap w (stats this))"
proof (intro conjI impI)
  assume "constructor path w0 = (this, w)"
  then show "heap w (stats this) = zero_stats" by (rule constructor_fresh(1))
next
  assume r: "resetStats this w = (this', w1) \<and> stats this < next_addr w"
  then have r1: "resetStats this w = (this', w1)" and r2: "stats this < next_addr w"
    by simp_all
  show "stats this' \<noteq> stats this" and "stats this' = next_addr w"
    and "heap w1 (stats this') = zero_stats"
    and "heap w1 (stats this) = heap w (stats this)"
    using resetStats_new_object [OF r1] r2 by simp_all
next
  assume "importAll this options startTime endTime sched w = Some (Inr a, w2)"
  then show "a = stats this" by (rule importAll_returns_own_stats)
next
  assume "files w (jsonPath this) = Some (Parsed (Data (Array es))) \<and> \<not> flag (dryRun options)
        \<and> 0 < effective_batchSize options"
  then show "\<exists>w'. importAll this options startTime endTime sched w = Some (Inr (stats this), w')
             \<and> imported (heap w' (stats this)) + skipped (heap w' (stats this))
                 + errors (heap w' (stats this))
                = imported (heap w (stats this)) + skipped (heap w (stats this))
                  + errors (heap w (stats this)) + int (length (filter is_object es))
             \<and> total_stat (heap w' (stats this)) = Some (int (length es))"
    using importAll_real_run [of w this es options startTime endTime sched]
    by (auto simp: accounted_def)
next
  assume g: "stats this < next_addr w \<and> getStats this w = (b, w3)"
  then have g1: "stats this < next_addr w" and g2: "getStats this w = (b, w3)"
    by simp_all
  show "b \<noteq> stats this" and "heap w3 b = heap w (stats this)"
    and "heap (assign b v w3) (stats this) = heap w (stats this)"
    using getStats_copy [OF g1 g2] by simp_all
qed

theorem stats_belong_to_importer_witness:
  "constructor None (example_world [keyless_client]) = (importer_0, world_0)
   \<and> heap world_0 (stats importer_0) = zero_stats
   \<and> resetStats importer_0 world_1
       = (fst (resetStats importer_0 world_1), snd (resetStats importer_0 world_1))
   \<and> stats importer_0 < next_addr world_1
   \<and> stats (fst (resetStats importer_0 world_1)) = 1
   \<and> stats (fst (resetStats importer_0 world_1)) \<noteq> stats importer_0
   \<and> heap (snd (resetStats importer_0 world_1)) (stats (fst (resetStats importer_0 world_1)))
       = zero_stats
   \<and> heap (snd (resetStats importer_0 world_1)) (stats importer_0)
       = heap world_1 (stats importer_0)
   \<and> importAll importer_0 no_options 10 15 [] world_1 = Some (Inr 0, world_2)
   \<and> 0 = stats importer_0
   \<and> files world_1 (jsonPath importer_0)
       = Some (Parsed (Data (Array [JsonObject keyless_client])))
   \<and> \<not> flag (dryRun no_options) \<and> 0 < effective_batchSize no_options
   \<and> (\<exists>w'. importAll importer_0 no_options 10 15 [] world_1 = Some (Inr (stats importer_0), w')
         \<and> imported (heap w' (stats importer_0)) + skipped (heap w' (stats importer_0))
             + errors (heap w' (stats importer_0)) = 2
         \<and> total_stat (heap w' (stats importer_0)) = Some 1)
   \<and> getStats importer_0 world_1 = (1, snd (getStats importer_0 world_1))
   \<and> 1 \<noteq> stats importer_0
   \<and> heap (snd (getStats importer_0 world_1)) 1 = heap world_1 (stats importer_0)
   \<and> heap (assign 1 zero_stats (snd (getStats importer_0 world_1))) (stats importer_0)
       = heap world_1 (stats importer_0)"
proof -
  have c: "constructor None (example_world [keyless_client]) = (importer_0, world_0)"
    using constructor_example [of "Data (Array [JsonObject keyless_client])"]
    by (simp add: example_world_def constructed_def world_0_def)
  have r: "resetStats importer_0 world_1
      = (fst (resetStats importer_0 world_1), snd (resetStats importer_0 world_1))"
    by simp
  have a: "stats importer_0 < next_addr world_1" "next_addr world_1 = 1"
    by (simp_all add: world_1_def world_0_def set_stats_def importer_0_def)
  have i: "importAll importer_0 no_options 10 15 [] world_1 = Some (Inr 0, world_2)"
    using second_call by (simp add: importer_0_def)
  have f: "files world_1 (jsonPath importer_0)
        = Some (Parsed (Data (Array [JsonObject keyless_client])))
      \<and> \<not> flag (dryRun no_options) \<and> 0 < effective_batchSize no_options"
    by (simp add: world_1_def world_0_def set_stats_def example_world_def world_with_def
        importer_0_def flag_def no_options_def effective_batchSize_def)
  have g: "getStats importer_0 world_1 = (1, snd (getStats importer_0 world_1))"
    by (simp add: getStats_def new_object_def world_1_def world_0_def set_stats_def
        importer_0_def)
  have before: "imported (heap world_1 (stats importer_0)) + skipped (heap world_1 (stats importer_0))
      + errors (heap world_1 (stats importer_0)) = 1"
    by (simp add: world_1_def set_stats_def)
  note t1 = stats_belong_to_importer
    [where path = None and ?w0.0 = "example_world [keyless_client]" and this = importer_0
      and w = world_0, THEN conjunct1]
  note t2 = stats_belong_to_importer
    [where this = importer_0 and w = world_1 and this' = "fst (resetStats importer_0 world_1)"
      and ?w1.0 = "snd (resetStats importer_0 world_1)", THEN conjunct2, THEN conjunct1]
  note t3 = stats_belong_to_importer
    [where this = importer_0 and w = world_1 and options = no_options and startTime = 10
      and endTime = 15 and sched = "[]" and a = 0 and ?w2.0 = world_2,
      THEN conjunct2, THEN conjunct2, THEN conjunct1]
  note t4 = stats_belong_to_importer
    [where this = importer_0 and w = world_1 and options = no_options and startTime = 10
      and endTime = 15 and sched = "[]" and es = "[JsonObject keyless_client]",
      THEN conjunct2, THEN conjunct2, THEN conjunct2, THEN conjunct1]
  note t5 = stats_belong_to_importer
    [where this = importer_0 and w = world_1 and b = 1
      and ?w3.0 = "snd (getStats importer_0 world_1)" and v = zero_stats,
      THEN conjunct2, THEN conjunct2, THEN conjunct2, THEN conjunct2]
  from t1 c have 1: "heap world_0 (stats importer_0) = zero_stats" by simp
  from r a(1) have ra: "resetStats importer_0 world_1
        = (fst (resetStats importer_0 world_1), snd (resetStats importer_0 world_1))
      \<and> stats importer_0 < next_addr world_1"
    by blast
  from t2 ra have reset:
    "stats (fst (resetStats importer_0 world_1)) \<noteq> stats importer_0
     \<and> stats (fst (resetStats importer_0 world_1)) = next_addr world_1
     \<and> heap (snd (resetStats importer_0 world_1)) (stats (fst (resetStats importer_0 world_1)))
         = zero_stats
     \<and> heap (snd (resetStats importer_0 world_1)) (stats importer_0)
         = heap world_1 (stats importer_0)"
    by blast
  then have 2:
    "stats (fst (resetStats importer_0 world_1)) = 1"
    "stats (fst (resetStats importer_0 world_1)) \<noteq> stats importer_0"
    "heap (snd (resetStats importer_0 world_1)) (stats (fst (resetStats importer_0 world_1)))
       = zero_stats"
    "heap (snd (resetStats importer_0 world_1)) (stats importer_0)
       = heap world_1 (stats importer_0)"
    using a(2) by metis+
  from t3 i have 3: "0 = stats importer_0" by blast
  from t4 f before have 4:
    "\<exists>w'. importAll importer_0 no_options 10 15 [] world_1 = Some (Inr (stats importer_0), w')
         \<and> imported (heap w' (stats importer_0)) + skipped (heap w' (stats importer_0))
             + errors (heap w' (stats importer_0)) = 2
         \<and> total_stat (heap w' (stats importer_0)) = Some 1"
    by simp
  from t5 g a(1) have 5: "1 \<noteq> stats importer_0"
    "heap (snd (getStats importer_0 world_1)) 1 = heap world_1 (stats importer_0)"
    "heap (assign 1 zero_stats (snd (getStats importer_0 world_1))) (stats importer_0)
       = heap world_1 (stats importer_0)"
    by blast+
  from c r a(1) i f g 1 2 3 4 5 show ?thesis by blast
qed

section \<open>A batch of one record\<close>

lemma pick_single: "pick sched (Suc 0) = 0"
  by (simp add: pick_def split: list.splits)

lemma settle_single_last:
  assumes "processClient_resume options t sd = (None, sd')"
  shows "fst (settle options sched [t] sd) = sd'"
  using assms by (subst settle.simps) (simp add: pick_single advance_def)

lemma settle_single_next:
  assumes "processClient_resume options t sd = (Some t', sd')"
  shows "fst (settle options sched [t] sd) = fst (settle options (tl sched) [t'] sd')"
  using assms by (subst settle.simps) (simp add: pick_single advance_def)

text \<open>A batch of one record is one call of \<open>processClient\<close>; a batch of one \<^verbatim>\<open>null\<close> changes nothing.\<close>

lemma processBatch_single:
  "fst (processBatch options sched [JsonObject c] sd) = processClient c options sd"
proof (cases sd)
  case (Pair s d)
  show ?thesis
  proof (cases "has_key c")
    case False
    then show ?thesis
      using Pair
      by (auto simp: processBatch_def processClient_start_def processClient_def has_key_def
          truthy_def split: option.splits)
  next
    case True
    then obtain k where k: "c ''Client ID'' = Some k" "k \<noteq> []"
      by (auto simp: has_key_def truthy_def split: option.splits)
    obtain r1 d1 where c1: "checkExistingClient k d = (r1, d1)"
      by (cases "checkExistingClient k d") auto
    obtain r2 d2 where c2: "insertClient c d1 = (r2, d2)"
      by (cases "insertClient c d1") auto
    obtain r3 d3 where c3: "updateClient c d1 = (r3, d3)"
      by (cases "updateClient c d1") auto
    have b: "fst (processBatch options sched [JsonObject c] sd)
        = fst (settle options sched [AwaitCheck k c] (s, d))"
      using Pair k by (simp add: processBatch_def processClient_start_def)
    obtain r sd1 where step: "processClient_resume options (AwaitCheck k c) (s, d) = (r, sd1)"
      by (cases "processClient_resume options (AwaitCheck k c) (s, d)") auto
    show ?thesis
    proof (cases r)
        case None
        with step have "fst (settle options sched [AwaitCheck k c] (s, d)) = sd1"
          using settle_single_last by simp
        with b step None c1 k \<open>sd = (s, d)\<close> show ?thesis
          by (auto simp: processClient_def split: sum.splits option.splits if_splits)
      next
        case (Some t)
        with step have n: "fst (settle options sched [AwaitCheck k c] (s, d))
            = fst (settle options (tl sched) [t] sd1)"
          using settle_single_next by simp
        from step Some c1 have "fst (processClient_resume options t sd1) = None"
          by (cases sd1) (auto split: sum.splits option.splits if_splits prod.splits)
        then have "fst (settle options (tl sched) [t] sd1) = snd (processClient_resume options t sd1)"
          using settle_single_last [of options t sd1 "snd (processClient_resume options t sd1)"]
          by (cases "processClient_resume options t sd1") auto
        with n b step Some c1 c2 c3 k \<open>sd = (s, d)\<close> show ?thesis
          by (auto simp: processClient_def split: sum.splits option.splits if_splits)
    qed
  qed
qed

lemma processBatch_null: "processBatch options sched [JsonNull] sd = (sd, sched)"
  by (cases sd) (simp add: processBatch_def)

end
